theory Spec2Isabelle
  imports Main "HOL-Library.AList"
begin

section \<open>Python values, exceptions and the object store\<close>

text \<open>
  The bridge in \<^verbatim>\<open>flax/nnx/nnx/bridge/wrappers.py\<close> is Python: values are
  dynamically typed, objects are shared by reference and mutated in place, and failures
  are exceptions. Values are a datatype, objects live in a store indexed by address,
  every function that mutates takes the store (or the object) and returns the new one,
  and every raise is an \<open>Inl\<close> result.
\<close>

type_synonym addr = nat

datatype pyval =
    VNone
  | VBool bool
  | VInt int
  | VStr string
  | VList "pyval list"
  | VRef addr               \<comment> \<open>a reference to the object at an address\<close>
  | VMethod addr string     \<comment> \<open>a bound method: \<^verbatim>\<open>__self__\<close> and the method's name\<close>
  | VFunc string            \<comment> \<open>a plain function, which has no \<^verbatim>\<open>__self__\<close>\<close>

text \<open>
  \<open>AssertionError\<close>, \<open>TypeError\<close> and \<open>AttributeError\<close> are the Python
  exceptions the bridge's own statements raise; \<open>Raised\<close> is any exception that comes
  out of a collaborator called by the bridge and is passed through. The last four are
  the failure names of the specification's error taxonomy.
\<close>

datatype error =
    AssertionError
  | TypeError
  | AttributeError
  | Raised string
  | UnknownCollectionError
  | MissingRngError
  | MissingGraphDefError
  | NotInitializedError

text \<open>Python's \<^verbatim>\<open>bool(v)\<close> and \<^verbatim>\<open>v != False\<close>.\<close>

fun truthy :: "pyval \<Rightarrow> bool" where
  "truthy VNone = False"
| "truthy (VBool b) = b"
| "truthy (VInt i) = (i \<noteq> 0)"
| "truthy (VStr s) = (s \<noteq> [])"
| "truthy (VList vs) = (vs \<noteq> [])"
| "truthy (VRef a) = True"
| "truthy (VMethod a n) = True"
| "truthy (VFunc n) = True"

fun ne_False :: "pyval \<Rightarrow> bool" where
  "ne_False (VBool b) = b"
| "ne_False (VInt i) = (i \<noteq> 0)"
| "ne_False v = True"

text \<open>
  An object of the store: whether it is an instance of \<^verbatim>\<open>Module\<close>, whether it is
  callable, its \<^verbatim>\<open>_object__state._initializing\<close> flag when it is an instance of
  \<^verbatim>\<open>Object\<close> (\<open>None\<close> for any other value: a variable, a container, an array), and
  its ownership edges (the node's attribute names with the addresses they hold).
\<close>

record pyobj =
  is_Module :: bool
  callable :: bool
  object_state :: "bool option"
  node_dict :: "(string \<times> addr) list"

type_synonym heap = "pyobj list"

section \<open>The initialization-phase toggle\<close>

text \<open>
  Modelled from the spec: \<^verbatim>\<open>graph.iter_graph\<close> is not part of the bridge file. It
  traverses every object reachable from the root through ownership edges, each object
  visited exactly once regardless of how many owners reference it: a depth-first search
  with a visited set keyed by identity. The model yields the addresses in the order of
  their first visit; the path that the generator yields with each value is dropped, as
  the caller drops it (\<^verbatim>\<open>for _, value in graph.iter_graph(module)\<close>). An address
  outside the store stands for no object and is skipped.
\<close>

function iter_graph_aux :: "heap \<Rightarrow> addr list \<Rightarrow> addr list \<Rightarrow> addr list" where
  "iter_graph_aux h visited [] = rev visited"
| "iter_graph_aux h visited (a # todo) =
     (if a \<in> set visited \<or> length h \<le> a then iter_graph_aux h visited todo
      else iter_graph_aux h (a # visited) (map snd (node_dict (h ! a)) @ todo))"
  by pat_completeness auto
termination
proof (relation "measures [\<lambda>(h, visited, todo). card ({..<length h} - set visited),
    \<lambda>(h, visited, todo). length todo]", goal_cases)
  case 1
  show ?case by simp
next
  case (2 h visited a todo)
  then show ?case by simp
next
  case (3 h visited a todo)
  then have "a \<in> {..<length h} - set visited" by simp
  then have "card ({..<length h} - set visited - {a}) < card ({..<length h} - set visited)"
    by (intro card_Diff1_less) simp_all
  moreover have "{..<length h} - set (a # visited) = {..<length h} - set visited - {a}"
    by auto
  ultimately show ?case by simp
qed

text \<open>
  Modelled from the spec: \<^verbatim>\<open>graph.iter_graph(root)\<close> starts the traversal at one
  root with nothing visited.
\<close>

definition iter_graph :: "heap \<Rightarrow> addr \<Rightarrow> addr list" where
  "iter_graph h root = iter_graph_aux h [] [root]"

text \<open>
  \<^verbatim>\<open>_set_initializing(module, initializing)\<close>: every yielded value that is an
  instance of \<^verbatim>\<open>Object\<close> gets its flag assigned. The assignments change no ownership
  edge, so the traversal of the store as it was at the start yields what the generator
  yields while the loop body runs.
\<close>

definition set_flag :: "bool \<Rightarrow> addr \<Rightarrow> heap \<Rightarrow> heap" where
  "set_flag initializing a h =
     (case object_state (h ! a) of
        None \<Rightarrow> h
      | Some _ \<Rightarrow> h[a := (h ! a)\<lparr>object_state := Some initializing\<rparr>])"

definition set_initializing :: "heap \<Rightarrow> addr \<Rightarrow> bool \<Rightarrow> heap" where
  "set_initializing h module initializing =
     fold (set_flag initializing) (iter_graph h module) h"

text \<open>The objects reachable from a root through ownership edges.\<close>

inductive_set reachable :: "heap \<Rightarrow> addr \<Rightarrow> addr set" for h :: heap and root :: addr where
  root: "root < length h \<Longrightarrow> root \<in> reachable h root"
| edge: "a \<in> reachable h root \<Longrightarrow> (k, b) \<in> set (node_dict (h ! a)) \<Longrightarrow> b < length h
         \<Longrightarrow> b \<in> reachable h root"

section \<open>\<^verbatim>\<open>lazy_init\<close>\<close>

text \<open>
  \<^verbatim>\<open>lazy_init(fn, *args, **kwargs)\<close>. The first statement finds the module: \<open>fn\<close>
  itself when it is an instance of \<^verbatim>\<open>Module\<close> (asserted callable), otherwise the
  \<^verbatim>\<open>__self__\<close> of \<open>fn\<close> (asserted to exist and to be a \<^verbatim>\<open>Module\<close>).
\<close>

definition isinstance_Module :: "heap \<Rightarrow> pyval \<Rightarrow> bool" where
  "isinstance_Module h v =
     (case v of VRef a \<Rightarrow> a < length h \<and> is_Module (h ! a) | _ \<Rightarrow> False)"

definition py_callable :: "heap \<Rightarrow> pyval \<Rightarrow> bool" where
  "py_callable h v =
     (case v of VRef a \<Rightarrow> a < length h \<and> callable (h ! a)
      | VMethod a n \<Rightarrow> True | VFunc n \<Rightarrow> True | _ \<Rightarrow> False)"

definition lazy_init_module :: "heap \<Rightarrow> pyval \<Rightarrow> error + addr" where
  "lazy_init_module h fn =
     (if isinstance_Module h fn then
        (case fn of VRef a \<Rightarrow> if py_callable h fn then Inr a else Inl AssertionError
         | _ \<Rightarrow> Inl AssertionError)
      else
        (case fn of
           VMethod self n \<Rightarrow>
             if isinstance_Module h (VRef self) then Inr self else Inl AssertionError
         | _ \<Rightarrow> Inl AssertionError))"

text \<open>
  The wrapped call \<^verbatim>\<open>fn(*args, **kwargs)\<close> is any Python code: \<open>call\<close> takes the
  callee, the arguments and the store and gives what the call returned or raised,
  together with the store as the call left it. The \<^verbatim>\<open>finally\<close> block runs on both
  outcomes; the function returns \<open>fn\<close>.
\<close>

definition lazy_init ::
  "(pyval \<Rightarrow> 'x \<Rightarrow> heap \<Rightarrow> (error + pyval) \<times> heap) \<Rightarrow> pyval \<Rightarrow> 'x \<Rightarrow> heap
     \<Rightarrow> (error + pyval) \<times> heap" where
  "lazy_init call fn args h =
     (case lazy_init_module h fn of
        Inl e \<Rightarrow> (Inl e, h)
      | Inr module \<Rightarrow>
          (let h1 = set_initializing h module True;
               (r, h2) = call fn args h1;
               h3 = set_initializing h2 module False
           in case r of Inl e \<Rightarrow> (Inl e, h3) | Inr _ \<Rightarrow> (Inr fn, h3)))"

section \<open>The functional wrapper\<close>

text \<open>
  \<^verbatim>\<open>Functional\<close> is a dataclass of the module class, the retained graph definition
  (\<^verbatim>\<open>None\<close> until \<^verbatim>\<open>init\<close> has run), and the construction arguments. The module
  class is its constructor: a function of the positional and the keyword arguments that
  gives the module or raises.
\<close>

record ('a, 'm, 'g) Functional =
  module_type :: "'a list \<Rightarrow> (string \<times> 'a) list \<Rightarrow> error + 'm"
  graphdef :: "'g option"
  args_fn :: "'a list"
  kwargs_fn :: "(string \<times> 'a) list"

definition functional ::
  "('a list \<Rightarrow> (string \<times> 'a) list \<Rightarrow> error + 'm) \<Rightarrow> 'a list \<Rightarrow> (string \<times> 'a) list
     \<Rightarrow> ('a, 'm, 'g) Functional" where
  "functional cls as kws = \<lparr>module_type = cls, graphdef = None, args_fn = as, kwargs_fn = kws\<rparr>"

text \<open>
  \<^verbatim>\<open>init\<close>: the call \<^verbatim>\<open>module_type(*args, **self.kwargs, **kwargs)\<close> raises
  \<^verbatim>\<open>TypeError\<close> when \<^verbatim>\<open>rngs\<close> is given both ways; \<open>nnx_split\<close> is
  \<^verbatim>\<open>nnx.split(module)\<close>. The handle is returned with the graph definition retained.
\<close>

definition Functional_init ::
  "('m \<Rightarrow> 'g \<times> 's) \<Rightarrow> ('a, 'm, 'g) Functional \<Rightarrow> 'a option
     \<Rightarrow> (error + 's) \<times> ('a, 'm, 'g) Functional" where
  "Functional_init nnx_split self r =
     (let kws = (case r of None \<Rightarrow> [] | Some v \<Rightarrow> [(''rngs'', v)]) in
      if \<exists>k\<in>set (map fst kws). k \<in> set (map fst (kwargs_fn self)) then (Inl TypeError, self)
      else
        (case module_type self (args_fn self) (kwargs_fn self @ kws) of
           Inl e \<Rightarrow> (Inl e, self)
         | Inr m \<Rightarrow>
             (let (gd, state) = nnx_split m
              in (Inr state, self\<lparr>graphdef := Some gd\<rparr>))))"

text \<open>
  Modelled from the spec: \<^verbatim>\<open>GraphDef.apply\<close> is not part of the bridge file. It
  merges the graph definition with the given states and invokes the reconstructed
  module.
\<close>

definition GraphDef_apply ::
  "('g \<Rightarrow> 's list \<Rightarrow> 'm) \<Rightarrow> ('m \<Rightarrow> 'r) \<Rightarrow> 'g \<Rightarrow> 's list \<Rightarrow> 'r" where
  "GraphDef_apply nnx_merge invoke gd states = invoke (nnx_merge gd states)"

text \<open>\<^verbatim>\<open>apply\<close>: the assertion, then the graph definition's own \<^verbatim>\<open>apply\<close>.\<close>

definition Functional_apply ::
  "('g \<Rightarrow> 's list \<Rightarrow> error + 'r) \<Rightarrow> ('a, 'm, 'g) Functional \<Rightarrow> 's list \<Rightarrow> error + 'r" where
  "Functional_apply graphdef_apply self states =
     (case graphdef self of
        None \<Rightarrow> Inl AssertionError
      | Some gd \<Rightarrow> graphdef_apply gd states)"

section \<open>Trees of variables\<close>

text \<open>
  A pytree: nested dictionaries with leaves. \<^verbatim>\<open>jax.tree.map\<close> is \<open>map_pytree\<close>, the
  leaves are \<open>set_pytree\<close>.
\<close>

datatype 'v pytree = Leaf 'v | Dict "(string \<times> 'v pytree) list"

text \<open>
  \<^verbatim>\<open>variableslib.variable_type\<close> is not part of the bridge file: the specification
  has it map a collection name to a variable type and fail with
  \<open>UnknownCollectionError\<close> on an unrecognized name, so it is a parameter
  \<open>vt :: string \<Rightarrow> 't option\<close> with \<open>None\<close> for the failure. A variable of type \<open>t\<close>
  holding \<open>v\<close> is the pair \<open>(t, v)\<close>.

  \<^verbatim>\<open>nn_var_to_nnx_state\<close> runs once for every leaf, under the leaf's top-level key, so
  a tree without leaves never asks for the type.
\<close>

fun retype :: "'t option \<Rightarrow> 'v pytree \<Rightarrow> ('t \<times> 'v) pytree option" where
  "retype t (Leaf v) = map_option (\<lambda>ty. Leaf (ty, v)) t"
| "retype t (Dict kvs) =
     map_option Dict (those (map (\<lambda>kv. map_option (Pair (fst kv)) (retype t (snd kv))) kvs))"

definition nn_var_to_nnx_state ::
  "(string \<Rightarrow> 't option) \<Rightarrow> (string \<times> 'v pytree) list
     \<Rightarrow> (string \<times> ('t \<times> 'v) pytree) list option" where
  "nn_var_to_nnx_state vt variables =
     those (map (\<lambda>(col, tree). map_option (Pair col) (retype (vt col) tree)) variables)"

section \<open>\<^verbatim>\<open>ToNNX\<close>: a Linen module driven through the NNX interface\<close>

text \<open>
  What a Linen call returns: a plain output, or the pair of an output and the updated
  collections (what \<^verbatim>\<open>apply\<close> returns under \<^verbatim>\<open>mutable\<close>). Unpacking a plain
  output into two names raises.
\<close>

datatype ('o, 'v) linen_out = Plain 'o | WithUpdates 'o "(string \<times> 'v pytree) list"

text \<open>
  The wrapped Linen module, by the two entry points the wrapper calls. Both take the
  positional arguments, the \<^verbatim>\<open>method\<close> and the keyword arguments of the call.
\<close>

record ('k, 'a, 'mt, 'o, 'v) linen =
  init_with_output :: "(string \<rightharpoonup> 'k) \<Rightarrow> 'a list \<Rightarrow> 'mt option \<Rightarrow> (string \<times> pyval) list
     \<Rightarrow> error + (('o, 'v) linen_out \<times> (string \<times> 'v pytree) list)"
  apply_linen :: "(string \<rightharpoonup> 'v pytree) \<Rightarrow> 'a list \<Rightarrow> (string \<rightharpoonup> 'k) \<Rightarrow> 'mt option
     \<Rightarrow> (string \<times> pyval) list \<Rightarrow> error + ('o, 'v) linen_out"

text \<open>
  \<^verbatim>\<open>Rngs\<close> is not part of the bridge file. By the specification a stream bundle is a
  named mapping from stream names to streams; \<^verbatim>\<open>rngs.items()\<close> is the list of its
  entries. Streams are mutable objects, shared by reference: a bundle holds their
  addresses in a store of stream states. The two operations the wrapper uses are
  parameters: \<open>raw_value\<close> is \<^verbatim>\<open>stream.key.raw_value\<close> and \<open>next_key\<close> is the
  call \<^verbatim>\<open>stream()\<close>, which gives a key and advances the stream.
\<close>

type_synonym rngs = "(string \<times> addr) list"

record ('s, 'k) stream_ops =
  raw_value :: "'s \<Rightarrow> 'k"
  next_key :: "'s \<Rightarrow> 'k \<times> 's"

text \<open>
  Modelled from the spec: the truth value of an optional \<^verbatim>\<open>Rngs\<close>, which is not part
  of the bridge file. \<^verbatim>\<open>None\<close> is falsy, and a bundle, being a mapping, is truthy
  when it is not empty.
\<close>

definition rngs_truthy :: "rngs option \<Rightarrow> bool" where
  "rngs_truthy r = (case r of None \<Rightarrow> False | Some b \<Rightarrow> b \<noteq> [])"

text \<open>
  The wrapper: the constructor's three assignments, the collections stored as
  attributes by \<^verbatim>\<open>_setattr\<close> (kept apart from the three fields), and the
  \<^verbatim>\<open>_object__state.initializing\<close> flag.
\<close>

record ('k, 'a, 'mt, 'o, 'v, 't) ToNNX =
  module :: "('k, 'a, 'mt, 'o, 'v) linen"
  rngs :: "rngs option"
  linen_collections :: "string set"
  attrs :: "string \<rightharpoonup> ('t \<times> 'v) pytree"
  initializing :: bool

definition ToNNX_new ::
  "('k, 'a, 'mt, 'o, 'v) linen \<Rightarrow> rngs option \<Rightarrow> ('k, 'a, 'mt, 'o, 'v, 't) ToNNX" where
  "ToNNX_new m r =
     \<lparr>module = m, rngs = r, linen_collections = {}, attrs = Map.empty, initializing = False\<rparr>"

text \<open>The arguments of one call: \<^verbatim>\<open>*args, rngs=None, method=None, **kwargs\<close>.\<close>

record ('a, 'mt) call_args =
  ca_args :: "'a list"
  ca_rngs :: "rngs option"
  ca_method :: "'mt option"
  ca_kwargs :: "(string \<times> pyval) list"

text \<open>\<^verbatim>\<open>if not rngs: rngs = self.rngs\<close>\<close>

definition effective_rngs :: "rngs option \<Rightarrow> rngs option \<Rightarrow> rngs option" where
  "effective_rngs self_rngs r = (if \<not> rngs_truthy r then self_rngs else r)"

text \<open>
  The dictionary handed to \<^verbatim>\<open>init_with_output\<close>: the raw key of every stream, with
  \<^verbatim>\<open>default\<close> renamed to \<^verbatim>\<open>params\<close> when there is no \<^verbatim>\<open>params\<close>.
\<close>

definition raw_keys :: "('s, 'k) stream_ops \<Rightarrow> (addr \<Rightarrow> 's) \<Rightarrow> rngs option \<Rightarrow> (string \<rightharpoonup> 'k)" where
  "raw_keys ops store r =
     (if rngs_truthy r then
        (case r of
           None \<Rightarrow> Map.empty
         | Some b \<Rightarrow> fold (\<lambda>(name, stream) d. d(name \<mapsto> raw_value ops (store stream))) b Map.empty)
      else Map.empty)"

definition init_rngs :: "('s, 'k) stream_ops \<Rightarrow> (addr \<Rightarrow> 's) \<Rightarrow> rngs option \<Rightarrow> (string \<rightharpoonup> 'k)" where
  "init_rngs ops store r =
     (let d = raw_keys ops store r in
      if d ''params'' = None \<and> d ''default'' \<noteq> None
      then (d(''default'' := None))(''params'' := d ''default'')
      else d)"

text \<open>
  The rest of the initializing branch, from what \<^verbatim>\<open>init_with_output\<close> gave: every
  collection is stored as an attribute and recorded in \<^verbatim>\<open>linen_collections\<close>. The
  whole tree is re-typed before the first attribute is set.
\<close>

definition ingest ::
  "(string \<Rightarrow> 't option) \<Rightarrow> ('k, 'a, 'mt, 'o, 'v, 't) ToNNX
     \<Rightarrow> error + (('o, 'v) linen_out \<times> (string \<times> 'v pytree) list)
     \<Rightarrow> (error + ('o, 'v) linen_out) \<times> ('k, 'a, 'mt, 'o, 'v, 't) ToNNX" where
  "ingest vt self res =
     (case res of
        Inl e \<Rightarrow> (Inl e, self)
      | Inr (out, variables) \<Rightarrow>
          (case nn_var_to_nnx_state vt variables of
             None \<Rightarrow> (Inl UnknownCollectionError, self)
           | Some typed \<Rightarrow>
               (Inr out,
                fold (\<lambda>(col, tree) w.
                        w\<lparr>attrs := (attrs w)(col \<mapsto> tree),
                          linen_collections := insert col (linen_collections w)\<rparr>)
                     typed self)))"

text \<open>
  The branch of an initialized wrapper: the values of the recorded collections are read
  back from the attributes (a missing attribute raises), every stream of the bundle is
  called once, and the module is applied.
\<close>

definition collect_variables ::
  "('k, 'a, 'mt, 'o, 'v, 't) ToNNX \<Rightarrow> error + (string \<rightharpoonup> 'v pytree)" where
  "collect_variables self =
     (if \<exists>col\<in>linen_collections self. attrs self col = None then Inl AttributeError
      else Inr (\<lambda>col. if col \<in> linen_collections self
                      then map_option (map_pytree snd) (attrs self col) else None))"

definition draw_keys ::
  "('s, 'k) stream_ops \<Rightarrow> rngs option \<Rightarrow> (addr \<Rightarrow> 's) \<Rightarrow> (string \<rightharpoonup> 'k) \<times> (addr \<Rightarrow> 's)" where
  "draw_keys ops r store =
     (if rngs_truthy r then
        (case r of
           None \<Rightarrow> (Map.empty, store)
         | Some b \<Rightarrow>
             fold (\<lambda>(name, stream) (d, st).
                     (let (key, s') = next_key ops (st stream)
                      in (d(name \<mapsto> key), st(stream := s'))))
                  b (Map.empty, store))
      else (Map.empty, store))"

text \<open>
  \<^verbatim>\<open>if kwargs.get('mutable', False) != False\<close>: the result is unpacked into the output
  and the updates, and every updated collection is stored, re-typed by
  \<^verbatim>\<open>variable_type(collection)\<close>. An exception in the loop leaves the attributes that
  were already written.
\<close>

definition mutable_requested :: "(string \<times> pyval) list \<Rightarrow> bool" where
  "mutable_requested kws =
     ne_False (case map_of kws ''mutable'' of None \<Rightarrow> VBool False | Some v \<Rightarrow> v)"

fun write_updates ::
  "(string \<Rightarrow> 't option) \<Rightarrow> (string \<times> 'v pytree) list \<Rightarrow> (string \<rightharpoonup> ('t \<times> 'v) pytree)
     \<Rightarrow> error option \<times> (string \<rightharpoonup> ('t \<times> 'v) pytree)" where
  "write_updates vt [] at = (None, at)"
| "write_updates vt ((collection, value) # rest) at =
     (case vt collection of
        None \<Rightarrow> (Some UnknownCollectionError, at)
      | Some ty \<Rightarrow> write_updates vt rest (at(collection \<mapsto> map_pytree (Pair ty) value)))"

definition split_updates ::
  "(string \<Rightarrow> 't option) \<Rightarrow> (string \<times> pyval) list \<Rightarrow> ('o, 'v) linen_out
     \<Rightarrow> ('k, 'a, 'mt, 'o, 'v, 't) ToNNX
     \<Rightarrow> (error + ('o, 'v) linen_out) \<times> ('k, 'a, 'mt, 'o, 'v, 't) ToNNX" where
  "split_updates vt kws out self =
     (if mutable_requested kws then
        (case out of
           Plain y \<Rightarrow> (Inl TypeError, self)
         | WithUpdates y updates \<Rightarrow>
             (case write_updates vt updates (attrs self) of
                (Some e, at) \<Rightarrow> (Inl e, self\<lparr>attrs := at\<rparr>)
              | (None, at) \<Rightarrow> (Inr (Plain y), self\<lparr>attrs := at\<rparr>)))
      else (Inr out, self))"

text \<open>
  \<^verbatim>\<open>ToNNX.__call__\<close>: the branch chosen by the flag, then (\<open>finish\<close>) the
  splitting of the updates. The result is what the call returned or raised, the wrapper
  as the call left it, and the store of stream states as the call left it.
\<close>

definition init_branch ::
  "('s, 'k) stream_ops \<Rightarrow> (string \<Rightarrow> 't option) \<Rightarrow> ('k, 'a, 'mt, 'o, 'v, 't) ToNNX \<Rightarrow> rngs option
     \<Rightarrow> ('a, 'mt) call_args \<Rightarrow> (addr \<Rightarrow> 's)
     \<Rightarrow> (error + ('o, 'v) linen_out) \<times> ('k, 'a, 'mt, 'o, 'v, 't) ToNNX \<times> (addr \<Rightarrow> 's)" where
  "init_branch ops vt self r ca store =
     (let (res, self') =
            ingest vt self
              (init_with_output (module self) (init_rngs ops store r)
                 (ca_args ca) (ca_method ca) (ca_kwargs ca))
      in (res, self', store))"

definition apply_branch ::
  "('s, 'k) stream_ops \<Rightarrow> ('k, 'a, 'mt, 'o, 'v, 't) ToNNX \<Rightarrow> rngs option
     \<Rightarrow> ('a, 'mt) call_args \<Rightarrow> (addr \<Rightarrow> 's)
     \<Rightarrow> (error + ('o, 'v) linen_out) \<times> ('k, 'a, 'mt, 'o, 'v, 't) ToNNX \<times> (addr \<Rightarrow> 's)" where
  "apply_branch ops self r ca store =
     (case collect_variables self of
        Inl e \<Rightarrow> (Inl e, self, store)
      | Inr variables \<Rightarrow>
          (let (keys, store') = draw_keys ops r store
           in (apply_linen (module self) variables (ca_args ca) keys (ca_method ca) (ca_kwargs ca),
               self, store')))"

definition finish ::
  "(string \<Rightarrow> 't option) \<Rightarrow> (string \<times> pyval) list
     \<Rightarrow> (error + ('o, 'v) linen_out) \<times> ('k, 'a, 'mt, 'o, 'v, 't) ToNNX \<times> (addr \<Rightarrow> 's)
     \<Rightarrow> (error + ('o, 'v) linen_out) \<times> ('k, 'a, 'mt, 'o, 'v, 't) ToNNX \<times> (addr \<Rightarrow> 's)" where
  "finish vt kws br =
     (case br of
        (Inl e, self', store') \<Rightarrow> (Inl e, self', store')
      | (Inr out, self', store') \<Rightarrow>
          (let (res, self'') = split_updates vt kws out self'
           in (res, self'', store')))"

definition ToNNX_call ::
  "('s, 'k) stream_ops \<Rightarrow> (string \<Rightarrow> 't option) \<Rightarrow> ('k, 'a, 'mt, 'o, 'v, 't) ToNNX
     \<Rightarrow> ('a, 'mt) call_args \<Rightarrow> (addr \<Rightarrow> 's)
     \<Rightarrow> (error + ('o, 'v) linen_out) \<times> ('k, 'a, 'mt, 'o, 'v, 't) ToNNX \<times> (addr \<Rightarrow> 's)" where
  "ToNNX_call ops vt self ca store =
     (let r = effective_rngs (rngs self) (ca_rngs ca)
      in finish vt (ca_kwargs ca)
           (if initializing self then init_branch ops vt self r ca store
            else apply_branch ops self r ca store))"

section \<open>\<^verbatim>\<open>ToLinen\<close>: an NNX module driven through the Linen interface\<close>

text \<open>
  What a Linen variable of the wrapper holds: the graph definition (in collection
  \<^verbatim>\<open>nnx\<close>, under \<^verbatim>\<open>graphdef\<close>) or one entry of a state's \<^verbatim>\<open>raw_mapping\<close>,
  a tree whose leaves are variable states with their type. The variables of the scope
  are a dictionary of dictionaries, kept in insertion order; \<^verbatim>\<open>State(d)\<close> wraps one
  collection's dictionary as it is.
\<close>

datatype ('g, 't, 'v) stored = GraphDefV 'g | StateV "('t \<times> 'v) pytree"

type_synonym ('g, 't, 'v) state = "(string \<times> ('g, 't, 'v) stored) list"

type_synonym ('g, 't, 'v) collections = "(string \<times> ('g, 't, 'v) state) list"

text \<open>
  The collaborators of the wrapper, as parameters. \<open>nnx_split\<close> is
  \<^verbatim>\<open>nnx.split(module)\<close> and \<open>nnx_split_by\<close> gives the states of
  \<^verbatim>\<open>nnx.split(module, *types)\<close>, one for each filter; \<open>sort_variable_types\<close> and
  \<open>variable_type_name\<close> are those of \<^verbatim>\<open>variableslib\<close>; \<open>merge_states\<close> is
  \<^verbatim>\<open>GraphState.merge\<close>, \<open>nnx_merge\<close> is \<^verbatim>\<open>nnx.merge\<close>, \<open>reseed\<close> is
  \<^verbatim>\<open>nnx.reseed\<close>, \<open>call_module\<close> is the call of the live module (which may change
  it), \<open>Rngs\<close> builds a stream bundle from keys; \<open>rng_names\<close> is
  \<^verbatim>\<open>scope.rngs.keys()\<close> and \<open>make_rng\<close> is Linen's \<^verbatim>\<open>make_rng\<close>, which advances
  the scope's generator state.
\<close>

record ('m, 'g, 't, 'v, 'k, 'x, 'o, 'a, 'sc) externals =
  nnx_split :: "'m \<Rightarrow> 'g \<times> (string \<times> ('t \<times> 'v) pytree) list"
  nnx_split_by :: "'m \<Rightarrow> 't list \<Rightarrow> (string \<times> ('t \<times> 'v) pytree) list list"
  sort_variable_types :: "'t set \<Rightarrow> 't list"
  variable_type_name :: "'t \<Rightarrow> string"
  merge_states :: "('g, 't, 'v) state list \<Rightarrow> ('g, 't, 'v) state"
  nnx_merge :: "('g, 't, 'v) stored \<Rightarrow> ('g, 't, 'v) state \<Rightarrow> error + 'm"
  reseed :: "'m \<Rightarrow> (string \<times> 'k) list \<Rightarrow> 'm"
  call_module :: "'m \<Rightarrow> 'x \<Rightarrow> (error + 'o) \<times> 'm"
  Rngs :: "(string \<times> 'k) list \<Rightarrow> 'a"
  rng_names :: "'sc \<Rightarrow> string list"
  make_rng :: "string \<Rightarrow> 'sc \<Rightarrow> 'k \<times> 'sc"

text \<open>
  The Linen scope the wrapper is bound to: the phase, which collections are writable in
  the current call, the variables, and the state of the scope's generators.
\<close>

record ('g, 't, 'v, 'sc) scope =
  is_initializing :: bool
  is_mutable_collection :: "string \<Rightarrow> bool"
  variables :: "('g, 't, 'v) collections"
  scope_rngs :: 'sc

record ('a, 'm) ToLinen =
  nnx_class :: "'a list \<Rightarrow> (string \<times> 'a) list \<Rightarrow> error + 'm"
  args_tl :: "'a list"
  kwargs_tl :: "(string \<times> 'a) list"
  skip_rng :: bool

definition to_linen ::
  "('a list \<Rightarrow> (string \<times> 'a) list \<Rightarrow> error + 'm) \<Rightarrow> 'a list \<Rightarrow> (string \<times> 'a) list
     \<Rightarrow> ('a, 'm) ToLinen" where
  "to_linen cls as kws = \<lparr>nnx_class = cls, args_tl = as, kwargs_tl = kws, skip_rng = False\<rparr>"

text \<open>
  Modelled from the spec: Linen's \<^verbatim>\<open>put_variable\<close> is not part of the bridge file. It
  stores a value under a name of a collection, as a dictionary assignment does (a
  present key keeps its place, a new key goes last, a new collection is created).
\<close>

definition put_variable ::
  "string \<Rightarrow> string \<Rightarrow> 'w \<Rightarrow> (string \<times> (string \<times> 'w) list) list
     \<Rightarrow> (string \<times> (string \<times> 'w) list) list" where
  "put_variable col name v vars =
     AList.update col
       (AList.update name v (case map_of vars col of None \<Rightarrow> [] | Some d \<Rightarrow> d)) vars"

text \<open>The value stored under a name of a collection, if there is one.\<close>

definition lookup_variable ::
  "(string \<times> (string \<times> 'w) list) list \<Rightarrow> string \<Rightarrow> string \<Rightarrow> 'w option" where
  "lookup_variable vars col name =
     (case map_of vars col of None \<Rightarrow> None | Some d \<Rightarrow> map_of d name)"

text \<open>
  Modelled from the spec: Linen's \<^verbatim>\<open>get_variable\<close> is not part of the bridge file. The
  wrapper calls it only to read the stored graph definition, and that read fails with
  \<open>MissingGraphDefError\<close> if the value is absent.
\<close>

definition get_variable ::
  "('g, 't, 'v, 'sc) scope \<Rightarrow> string \<Rightarrow> string \<Rightarrow> error + ('g, 't, 'v) stored" where
  "get_variable sc col name =
     (case lookup_variable (variables sc) col name of
        None \<Rightarrow> Inl MissingGraphDefError
      | Some v \<Rightarrow> Inr v)"

text \<open>
  \<^verbatim>\<open>update_variables\<close>. \<open>state_types\<close> is the set of the types of the state's
  leaves. The graph definition is stored first; then, for each type in sorted order, the
  entries of that type's state are stored one by one under the collection named after
  the type. Both writes are under the guard of \<^verbatim>\<open>is_mutable_collection\<close>.
\<close>

definition state_types :: "(string \<times> ('t \<times> 'v) pytree) list \<Rightarrow> 't set" where
  "state_types state = (\<Union>kv\<in>set state. fst ` set_pytree (snd kv))"

definition update_variables ::
  "('m, 'g, 't, 'v, 'k, 'x, 'o, 'a, 'sc) externals \<Rightarrow> 'm \<Rightarrow> ('g, 't, 'v, 'sc) scope
     \<Rightarrow> ('g, 't, 'v, 'sc) scope" where
  "update_variables env m sc =
     (let (gdef, state) = nnx_split env m;
          vars0 = (if is_mutable_collection sc ''nnx''
                   then put_variable ''nnx'' ''graphdef'' (GraphDefV gdef) (variables sc)
                   else variables sc);
          types = sort_variable_types env (state_types state);
          state_by_types = nnx_split_by env m types
      in sc\<lparr>variables :=
              fold (\<lambda>(typ, st) vars.
                      (let collection = variable_type_name env typ
                       in if is_mutable_collection sc collection
                          then fold (\<lambda>(k, v). put_variable collection k (StateV v)) st vars
                          else vars))
                   (zip types state_by_types) vars0\<rparr>)"

text \<open>
  The sequence of \<^verbatim>\<open>put_variable\<close> calls that one run of \<^verbatim>\<open>update_variables\<close>
  makes, in order. It depends on the module and on which collections are writable, not
  on the variables stored so far.
\<close>

definition captured ::
  "('m, 'g, 't, 'v, 'k, 'x, 'o, 'a, 'sc) externals \<Rightarrow> (string \<Rightarrow> bool) \<Rightarrow> 'm
     \<Rightarrow> (string \<times> string \<times> ('g, 't, 'v) stored) list" where
  "captured env mutable m =
     (let (gdef, state) = nnx_split env m;
          types = sort_variable_types env (state_types state);
          state_by_types = nnx_split_by env m types
      in (if mutable ''nnx'' then [(''nnx'', ''graphdef'', GraphDefV gdef)] else []) @
         concat (map (\<lambda>(typ, st).
                        (let collection = variable_type_name env typ
                         in if mutable collection
                            then map (\<lambda>(k, v). (collection, k, StateV v)) st
                            else []))
                     (zip types state_by_types)))"

definition put_all ::
  "(string \<times> string \<times> 'w) list \<Rightarrow> (string \<times> (string \<times> 'w) list) list
     \<Rightarrow> (string \<times> (string \<times> 'w) list) list" where
  "put_all ps vars = fold (\<lambda>(col, k, v). put_variable col k v) ps vars"

text \<open>
  \<^verbatim>\<open>linen_rngs_dict\<close>: one key from every active generator of the module's scope.
\<close>

definition linen_rngs_dict ::
  "('m, 'g, 't, 'v, 'k, 'x, 'o, 'a, 'sc) externals \<Rightarrow> ('g, 't, 'v, 'sc) scope option
     \<Rightarrow> error + ((string \<times> 'k) list \<times> ('g, 't, 'v, 'sc) scope)" where
  "linen_rngs_dict env scope_opt =
     (case scope_opt of
        None \<Rightarrow> Inl AssertionError
      | Some sc \<Rightarrow>
          (let (d, g) =
                 fold (\<lambda>name (d, g).
                         (let (key, g') = make_rng env name g in (AList.update name key d, g')))
                      (rng_names env (scope_rngs sc)) ([], scope_rngs sc)
           in Inr (d, sc\<lparr>scope_rngs := g\<rparr>)))"

text \<open>
  The apply path of \<^verbatim>\<open>ToLinen.__call__\<close>, statement by statement: the states of
  every collection but \<^verbatim>\<open>nnx\<close>, their merge (or the empty state), and what follows
  the call of \<^verbatim>\<open>nnx.merge\<close>.
\<close>

definition collected_states :: "('g, 't, 'v) collections \<Rightarrow> ('g, 't, 'v) state list" where
  "collected_states vars = map snd (filter (\<lambda>(col, state). col \<noteq> ''nnx'') vars)"

definition apply_state ::
  "('m, 'g, 't, 'v, 'k, 'x, 'o, 'a, 'sc) externals \<Rightarrow> ('g, 't, 'v) collections
     \<Rightarrow> ('g, 't, 'v) state" where
  "apply_state env vars =
     (let states = collected_states vars
      in if states \<noteq> [] then merge_states env states else [])"

definition after_merge ::
  "('m, 'g, 't, 'v, 'k, 'x, 'o, 'a, 'sc) externals \<Rightarrow> ('g, 't, 'v, 'sc) scope \<Rightarrow> 'x
     \<Rightarrow> error + 'm \<Rightarrow> (error + 'o) \<times> ('g, 't, 'v, 'sc) scope" where
  "after_merge env sc x merged =
     (case merged of
        Inl e \<Rightarrow> (Inl e, sc)
      | Inr m \<Rightarrow>
          (case linen_rngs_dict env (Some sc) of
             Inl e \<Rightarrow> (Inl e, sc)
           | Inr (d, sc1) \<Rightarrow>
               (let (res, m') = call_module env (reseed env m d) x
                in case res of
                     Inl e \<Rightarrow> (Inl e, sc1)
                   | Inr out \<Rightarrow> (Inr out, update_variables env m' sc1))))"

definition ToLinen_call ::
  "('m, 'g, 't, 'v, 'k, 'x, 'o, 'a, 'sc) externals \<Rightarrow> ('a, 'm) ToLinen
     \<Rightarrow> ('g, 't, 'v, 'sc) scope \<Rightarrow> 'x \<Rightarrow> (error + 'o) \<times> ('g, 't, 'v, 'sc) scope" where
  "ToLinen_call env self sc x =
     (if is_initializing sc then
        (case (if \<not> skip_rng self
               then (case linen_rngs_dict env (Some sc) of
                       Inl e \<Rightarrow> Inl e
                     | Inr (d, sc') \<Rightarrow>
                         Inr (AList.update ''rngs'' (Rngs env d) (kwargs_tl self), sc'))
               else Inr (kwargs_tl self, sc)) of
           Inl e \<Rightarrow> (Inl e, sc)
         | Inr (module_kwargs, sc1) \<Rightarrow>
             (case nnx_class self (args_tl self) module_kwargs of
                Inl e \<Rightarrow> (Inl e, sc1)
              | Inr m \<Rightarrow>
                  (let sc2 = update_variables env m sc1
                   in (fst (call_module env m x), sc2))))
      else
        (case get_variable sc ''nnx'' ''graphdef'' of
           Inl e \<Rightarrow> (Inl e, sc)
         | Inr gdef \<Rightarrow>
             after_merge env sc x (nnx_merge env gdef (apply_state env (variables sc)))))"

section \<open>Auxiliary notions and concrete instances\<close>

text \<open>A set of objects whose valid ownership edges all lead into another set.\<close>

definition closed_in :: "heap \<Rightarrow> addr set \<Rightarrow> addr set \<Rightarrow> bool" where
  "closed_in h A B \<longleftrightarrow> (\<forall>a\<in>A. \<forall>b\<in>snd ` set (node_dict (h ! a)). b < length h \<longrightarrow> b \<in> B)"

text \<open>
  A store with a shared object: the root owns two modules, both of which own the module
  at address 3, which owns a variable. Two calls: one that raises and one that returns.
\<close>

definition shared_heap :: heap where
  "shared_heap =
     [\<lparr>is_Module = True, callable = True, object_state = Some False,
        node_dict = [(''left'', 1), (''right'', 2)]\<rparr>,
      \<lparr>is_Module = True, callable = True, object_state = Some False,
        node_dict = [(''shared'', 3)]\<rparr>,
      \<lparr>is_Module = True, callable = True, object_state = Some False,
        node_dict = [(''shared'', 3)]\<rparr>,
      \<lparr>is_Module = True, callable = True, object_state = Some False,
        node_dict = [(''kernel'', 4)]\<rparr>,
      \<lparr>is_Module = False, callable = False, object_state = None, node_dict = []\<rparr>]"

definition failing_call :: "pyval \<Rightarrow> unit \<Rightarrow> heap \<Rightarrow> (error + pyval) \<times> heap" where
  "failing_call fn x h = (Inl (Raised ''shape mismatch''), h)"

definition returning_call :: "pyval \<Rightarrow> unit \<Rightarrow> heap \<Rightarrow> (error + pyval) \<times> heap" where
  "returning_call fn x h = (Inr (VInt 7), h)"

text \<open>
  A module class whose instances are numbers, with a graph definition and a state that
  are numbers too.
\<close>

definition sum_cls :: "nat list \<Rightarrow> (string \<times> nat) list \<Rightarrow> error + nat" where
  "sum_cls as kws = Inr (sum_list as + sum_list (map snd kws))"

definition pair_split :: "nat \<Rightarrow> nat \<times> nat" where
  "pair_split m = (m, Suc m)"

definition sum_merge :: "nat \<Rightarrow> nat list \<Rightarrow> nat" where
  "sum_merge gd states = gd + sum_list states"

definition double_invoke :: "nat \<Rightarrow> error + nat" where
  "double_invoke m = Inr (2 * m)"

text \<open>
  A Linen module whose initialization returns the \<^verbatim>\<open>params\<close> key it was given,
  with one parameter, and whose apply returns the \<^verbatim>\<open>dropout\<close> key it was given,
  with an update of \<^verbatim>\<open>batch_stats\<close>; streams that are counters; two recognized
  collections.
\<close>

definition echo_linen :: "(nat, nat, unit, nat, nat) linen" where
  "echo_linen =
     \<lparr>init_with_output = (\<lambda>keys as mt kws.
         Inr (Plain (case keys ''params'' of None \<Rightarrow> 0 | Some k \<Rightarrow> k),
              [(''params'', Dict [(''w'', Leaf 1)])])),
      apply_linen = (\<lambda>variables as keys mt kws.
         Inr (WithUpdates (case keys ''dropout'' of None \<Rightarrow> 0 | Some k \<Rightarrow> k)
                [(''batch_stats'', Dict [(''mean'', Leaf 5)])]))\<rparr>"

definition counter_ops :: "(nat \<times> nat, nat) stream_ops" where
  "counter_ops = \<lparr>raw_value = fst, next_key = (\<lambda>s. (fst s + snd s, (fst s, Suc (snd s))))\<rparr>"

definition counter_store :: "addr \<Rightarrow> nat \<times> nat" where
  "counter_store a = (10 * a + 7, 0)"

definition two_types :: "string \<Rightarrow> nat option" where
  "two_types col = (if col = ''params'' then Some 0 else if col = ''batch_stats'' then Some 1 else None)"

definition init_wrapper :: "(nat, nat, unit, nat, nat, nat) ToNNX" where
  "init_wrapper = (ToNNX_new echo_linen (Some [(''default'', 0)]))\<lparr>initializing := True\<rparr>"

definition ready_wrapper :: "(nat, nat, unit, nat, nat, nat) ToNNX" where
  "ready_wrapper =
     (ToNNX_new echo_linen (Some [(''dropout'', 1)]))
       \<lparr>linen_collections := {''params''},
         attrs := [''params'' \<mapsto> Dict [(''w'', Leaf (0, 1))]]\<rparr>"

definition plain_call :: "(nat, unit) call_args" where
  "plain_call = \<lparr>ca_args = [], ca_rngs = None, ca_method = None, ca_kwargs = []\<rparr>"

definition mutable_call :: "(nat, unit) call_args" where
  "mutable_call =
     \<lparr>ca_args = [], ca_rngs = None, ca_method = None,
       ca_kwargs = [(''mutable'', VList [VStr ''batch_stats''])]\<rparr>"

text \<open>
  Collaborators over numbers for \<^verbatim>\<open>ToLinen\<close>, a scope with no variables, and a scope
  that holds a graph definition and two collections.
\<close>

definition toy_env :: "(nat, nat, nat, nat, nat, unit, nat, nat, nat) externals" where
  "toy_env =
     \<lparr>nnx_split = (\<lambda>m. (m, [(''kernel'', Leaf (0, m))])),
      nnx_split_by = (\<lambda>m types. map (\<lambda>t. [(''kernel'', Leaf (t, m))]) types),
      sort_variable_types = (\<lambda>S. if 0 \<in> S then [0] else []),
      variable_type_name = (\<lambda>t. ''params''),
      merge_states = concat,
      nnx_merge = (\<lambda>gdef st. Inr (length st)),
      reseed = (\<lambda>m d. m),
      call_module = (\<lambda>m x. (Inr m, m)),
      Rngs = (\<lambda>d. length d),
      rng_names = (\<lambda>g. []),
      make_rng = (\<lambda>name g. (g, Suc g))\<rparr>"

definition empty_scope :: "(nat, nat, nat, nat) scope" where
  "empty_scope =
     \<lparr>is_initializing = False, is_mutable_collection = (\<lambda>col. False), variables = [],
      scope_rngs = 0\<rparr>"

definition stored_scope :: "(nat, nat, nat, nat) scope" where
  "stored_scope =
     empty_scope\<lparr>variables :=
       [(''nnx'', [(''graphdef'', GraphDefV 3)]),
        (''params'', [(''kernel'', StateV (Leaf (0, 4)))]),
        (''batch_stats'', [(''mean'', StateV (Leaf (1, 5)))])]\<rparr>"

definition toy_wrapper :: "(nat, nat) ToLinen" where
  "toy_wrapper = to_linen sum_cls [1] []"

text \<open>A name of a collection is present in the variables.\<close>

definition present :: "(string \<times> (string \<times> 'w) list) list \<Rightarrow> string \<Rightarrow> string \<Rightarrow> bool" where
  "present vars col name \<longleftrightarrow> lookup_variable vars col name \<noteq> None"

section \<open>The traversal and the toggle\<close>

lemma iter_graph_aux_distinct:
  "distinct visited \<Longrightarrow> distinct (iter_graph_aux h visited todo)"
  by (induction h visited todo rule: iter_graph_aux.induct) auto

lemma iter_graph_aux_valid:
  "\<forall>a\<in>set visited. a < length h \<Longrightarrow> \<forall>a\<in>set (iter_graph_aux h visited todo). a < length h"
  by (induction h visited todo rule: iter_graph_aux.induct) auto

lemma iter_graph_aux_sound:
  "set visited \<subseteq> reachable h r \<Longrightarrow> \<forall>a\<in>set todo. a < length h \<longrightarrow> a \<in> reachable h r
   \<Longrightarrow> set (iter_graph_aux h visited todo) \<subseteq> reachable h r"
proof (induction h visited todo rule: iter_graph_aux.induct)
  case (1 h visited)
  then show ?case by simp
next
  case (2 h visited a todo)
  show ?case
  proof (cases "a \<in> set visited \<or> length h \<le> a")
    case True
    with 2 show ?thesis by simp
  next
    case False
    then have a: "a \<in> reachable h r" using 2(4) by simp
    have "\<forall>b\<in>set (map snd (node_dict (h ! a)) @ todo). b < length h \<longrightarrow> b \<in> reachable h r"
      using 2(4) a by (auto intro: reachable.edge)
    with 2(2)[OF False] 2(3) a False show ?thesis by simp
  qed
qed

lemma iter_graph_aux_complete:
  "closed_in h (set visited) (set visited \<union> set todo) \<Longrightarrow>
   set visited \<subseteq> set (iter_graph_aux h visited todo) \<and>
   (\<forall>a\<in>set todo. a < length h \<longrightarrow> a \<in> set (iter_graph_aux h visited todo)) \<and>
   closed_in h (set (iter_graph_aux h visited todo)) (set (iter_graph_aux h visited todo))"
proof (induction h visited todo rule: iter_graph_aux.induct)
  case (1 h visited)
  then show ?case by simp
next
  case (2 h visited a todo)
  show ?case
  proof (cases "a \<in> set visited \<or> length h \<le> a")
    case True
    have "closed_in h (set visited) (set visited \<union> set todo)"
      using 2(3) True unfolding closed_in_def by fastforce
    from 2(1)[OF True this] True show ?thesis by auto
  next
    case False
    have "closed_in h (set (a # visited)) (set (a # visited) \<union> set (map snd (node_dict (h ! a)) @ todo))"
      using 2(3) unfolding closed_in_def by auto
    from 2(2)[OF False this] False show ?thesis by auto
  qed
qed

lemma set_iter_graph: "set (iter_graph h r) = reachable h r"
proof
  show "set (iter_graph h r) \<subseteq> reachable h r"
    unfolding iter_graph_def by (rule iter_graph_aux_sound) (auto intro: reachable.root)
next
  have c: "r < length h \<longrightarrow> r \<in> set (iter_graph h r)"
    and cl: "closed_in h (set (iter_graph h r)) (set (iter_graph h r))"
    using iter_graph_aux_complete[of h "[]" "[r]"] unfolding iter_graph_def closed_in_def by auto
  show "reachable h r \<subseteq> set (iter_graph h r)"
  proof
    fix a assume "a \<in> reachable h r"
    then show "a \<in> set (iter_graph h r)"
    proof induction
      case root
      then show ?case using c by simp
    next
      case (edge a k b)
      then show ?case using cl unfolding closed_in_def by force
    qed
  qed
qed

lemma distinct_iter_graph: "distinct (iter_graph h r)"
  unfolding iter_graph_def by (rule iter_graph_aux_distinct) simp

lemma reachable_valid: "a \<in> reachable h r \<Longrightarrow> a < length h"
  by (induction rule: reachable.induct) auto

lemma length_set_flag [simp]: "length (set_flag b a h) = length h"
  by (simp add: set_flag_def split: option.splits)

lemma nth_set_flag:
  "set_flag b a h ! i =
     (if i = a \<and> a < length h then (h ! a)\<lparr>object_state := map_option (\<lambda>_. b) (object_state (h ! a))\<rparr>
      else h ! i)"
  by (cases "a < length h") (auto simp: set_flag_def list_update_beyond split: option.splits)

lemma length_fold_set_flag [simp]: "length (fold (set_flag b) as h) = length h"
  by (induction as arbitrary: h) auto

lemma nth_fold_set_flag:
  "fold (set_flag b) as h ! i =
     (if i \<in> set as \<and> i < length h then (h ! i)\<lparr>object_state := map_option (\<lambda>_. b) (object_state (h ! i))\<rparr>
      else h ! i)"
proof (induction as arbitrary: h)
  case Nil
  then show ?case by simp
next
  case (Cons a as)
  show ?case
    by (auto simp add: Cons.IH nth_set_flag option.map_comp comp_def)
qed

lemma length_set_initializing [simp]: "length (set_initializing h m b) = length h"
  by (simp add: set_initializing_def)

lemma nth_set_initializing:
  "set_initializing h m b ! i =
     (if i \<in> reachable h m then (h ! i)\<lparr>object_state := map_option (\<lambda>_. b) (object_state (h ! i))\<rparr>
      else h ! i)"
  using reachable_valid[of i h m]
  by (auto simp add: set_initializing_def nth_fold_set_flag set_iter_graph)

lemma reachable_cong:
  assumes "length h' = length h" "\<And>a. a < length h \<Longrightarrow> node_dict (h' ! a) = node_dict (h ! a)"
  shows "reachable h' r = reachable h r"
proof -
  have "a \<in> reachable h r" if "a \<in> reachable h' r" for a
    using that
  proof induction
    case root
    then show ?case using assms by (auto intro: reachable.root)
  next
    case (edge a k b)
    then show ?case using assms reachable_valid[of a h r] by (auto intro: reachable.edge)
  qed
  moreover have "a \<in> reachable h' r" if "a \<in> reachable h r" for a
    using that
  proof induction
    case root
    then show ?case using assms by (auto intro: reachable.root)
  next
    case (edge a k b)
    then show ?case using assms reachable_valid[of a h r] by (auto intro: reachable.edge)
  qed
  ultimately show ?thesis by blast
qed

lemma reachable_set_initializing [simp]:
  "reachable (set_initializing h m b) r = reachable h r"
  by (rule reachable_cong) (auto simp: nth_set_initializing)

lemma count_list_distinct: "distinct xs \<Longrightarrow> count_list xs x = (if x \<in> set xs then 1 else 0)"
  by (induction xs) auto

lemma iter_graph_shared_heap: "iter_graph shared_heap 0 = [0, 1, 3, 4, 2]"
  by (simp add: iter_graph_def shared_heap_def)

text \<open>
  Claim C8. When an object \<open>s\<close> of the store is owned by two different objects \<open>p\<close>
  and \<open>q\<close> reachable from the root, the traversal behind \<^verbatim>\<open>_set_initializing\<close>
  yields \<open>s\<close> exactly once; after the traversal both \<open>p\<close> and \<open>q\<close> still hold
  their reference to \<open>s\<close>, so both observe the one flag stored at \<open>s\<close>, which is the
  supplied value when \<open>s\<close> carries a flag; and every object reachable from the root is
  yielded exactly once and, when it carries a flag, ends with the supplied value.
\<close>

theorem set_initializing_visits_once:
  assumes "p \<in> reachable h root" and "q \<in> reachable h root" and "p \<noteq> q"
    and "(k, s) \<in> set (node_dict (h ! p))" and "(k', s) \<in> set (node_dict (h ! q))"
    and "s < length h"
  shows "count_list (iter_graph h root) s = 1 \<and>
    (k, s) \<in> set (node_dict (set_initializing h root flag ! p)) \<and>
    (k', s) \<in> set (node_dict (set_initializing h root flag ! q)) \<and>
    object_state (set_initializing h root flag ! s) = map_option (\<lambda>_. flag) (object_state (h ! s)) \<and>
    (\<forall>a\<in>reachable h root. count_list (iter_graph h root) a = 1 \<and>
       (\<forall>b. object_state (h ! a) = Some b \<longrightarrow>
          object_state (set_initializing h root flag ! a) = Some flag))"
proof -
  have s: "s \<in> reachable h root"
    using assms(1,4,6) by (rule reachable.edge)
  have once: "count_list (iter_graph h root) a = 1" if "a \<in> reachable h root" for a
    using that by (simp add: count_list_distinct distinct_iter_graph set_iter_graph)
  show ?thesis
    using assms s once by (simp add: nth_set_initializing)
qed

text \<open>The store with the shared module at address 3, owned by the modules at 1 and 2.\<close>

theorem set_initializing_visits_once_witness:
  "1 \<in> reachable shared_heap 0 \<and> 2 \<in> reachable shared_heap 0 \<and>
   (''shared'', 3) \<in> set (node_dict (shared_heap ! 1)) \<and>
   (''shared'', 3) \<in> set (node_dict (shared_heap ! 2)) \<and>
   count_list (iter_graph shared_heap 0) 3 = 1 \<and>
   object_state (set_initializing shared_heap 0 True ! 3) = Some True"
proof -
  have r: "1 \<in> reachable shared_heap 0" "2 \<in> reachable shared_heap 0"
    by (simp_all add: set_iter_graph[symmetric] iter_graph_shared_heap)
  have e: "(''shared'', 3) \<in> set (node_dict (shared_heap ! 1))"
    "(''shared'', 3) \<in> set (node_dict (shared_heap ! 2))" "3 < length shared_heap"
    by (simp_all add: shared_heap_def)
  have "object_state (shared_heap ! 3) = Some False"
    by (simp add: shared_heap_def)
  with set_initializing_visits_once[OF r _ e, of True] r e show ?thesis by simp
qed

section \<open>\<^verbatim>\<open>lazy_init\<close>: cleanup and result\<close>

text \<open>
  Claim C1. For a callable module, or a bound method of a module, passed to
  \<^verbatim>\<open>lazy_init\<close> (so that the entry assertions pass and the wrapped call is made),
  whatever the wrapped call does to the store and whether it returns or raises, no
  object reachable from the module in the store that \<^verbatim>\<open>lazy_init\<close> leaves has its
  initializing flag true; and when the wrapped call raises, \<^verbatim>\<open>lazy_init\<close> raises the
  same exception after that cleanup.
\<close>

theorem lazy_init_resets_flag:
  assumes "lazy_init_module h fn = Inr m"
    and "lazy_init call fn x h = (r, h')"
    and "a \<in> reachable h' m"
  shows "object_state (h' ! a) \<noteq> Some True \<and>
    (\<forall>e h2. call fn x (set_initializing h m True) = (Inl e, h2) \<longrightarrow> r = Inl e)"
proof -
  obtain r2 h2 where c: "call fn x (set_initializing h m True) = (r2, h2)"
    by (cases "call fn x (set_initializing h m True)")
  have h': "h' = set_initializing h2 m False" and r: "r = (case r2 of Inl e \<Rightarrow> Inl e | Inr _ \<Rightarrow> Inr fn)"
    using assms(1,2) c by (auto simp: lazy_init_def Let_def split: sum.splits)
  from assms(3) have "a \<in> reachable h2 m" by (simp add: h')
  then have "object_state (h' ! a) \<noteq> Some True"
    by (cases "object_state (h2 ! a)") (simp_all add: h' nth_set_initializing)
  moreover have "\<forall>e h2. call fn x (set_initializing h m True) = (Inl e, h2) \<longrightarrow> r = Inl e"
    using c r by auto
  ultimately show ?thesis by simp
qed

text \<open>
  When an entry assertion fails, nothing has been done yet: the store is as it was.
\<close>

lemma lazy_init_rejected:
  "lazy_init_module h fn = Inl e \<Longrightarrow> lazy_init call fn x h = (Inl e, h)"
  by (simp add: lazy_init_def)

text \<open>A wrapped call that raises, on the store with the shared module.\<close>

lemma lazy_init_failing_call:
  "lazy_init failing_call (VRef 0) () shared_heap = (Inl (Raised ''shape mismatch''), shared_heap)"
  by (simp add: lazy_init_def lazy_init_module_def isinstance_Module_def py_callable_def
      failing_call_def set_initializing_def iter_graph_def shared_heap_def set_flag_def)

lemma lazy_init_module_shared_heap: "lazy_init_module shared_heap (VRef 0) = Inr 0"
  by (simp add: lazy_init_module_def isinstance_Module_def py_callable_def shared_heap_def)

theorem lazy_init_resets_flag_witness:
  "lazy_init_module shared_heap (VRef 0) = Inr 0 \<and>
   lazy_init failing_call (VRef 0) () shared_heap = (Inl (Raised ''shape mismatch''), shared_heap) \<and>
   3 \<in> reachable shared_heap 0 \<and>
   object_state (shared_heap ! 3) \<noteq> Some True"
proof -
  have r: "3 \<in> reachable shared_heap 0"
    by (simp add: set_iter_graph[symmetric] iter_graph_shared_heap)
  show ?thesis
    using lazy_init_resets_flag[OF lazy_init_module_shared_heap lazy_init_failing_call r] r
      lazy_init_module_shared_heap lazy_init_failing_call
    by simp
qed

text \<open>
  Claim C2 as stated fails: the wrapped call returns \<open>7\<close>, and \<^verbatim>\<open>lazy_init\<close>
  returns the module it was given.
\<close>

theorem lazy_init_returns_call_value_counterexample:
  "lazy_init_module shared_heap (VRef 0) = Inr 0 \<and>
   fst (returning_call (VRef 0) () (set_initializing shared_heap 0 True)) = Inr (VInt 7) \<and>
   fst (lazy_init returning_call (VRef 0) () shared_heap) = Inr (VRef 0) \<and>
   fst (lazy_init returning_call (VRef 0) () shared_heap) \<noteq> Inr (VInt 7)"
  by (simp add: lazy_init_def lazy_init_module_shared_heap returning_call_def split_def)

text \<open>
  Claim C2, amended. When the entry assertions pass and the wrapped call succeeds,
  \<^verbatim>\<open>lazy_init(fn, *args, **kwargs)\<close> returns \<open>fn\<close> itself, the module or bound
  method it was given; the value that the wrapped call returned is discarded. The store
  it leaves is the one the call left, with the flags reset.
\<close>

theorem lazy_init_returns_fn:
  assumes "lazy_init_module h fn = Inr m"
    and "call fn x (set_initializing h m True) = (Inr v, h2)"
  shows "lazy_init call fn x h = (Inr fn, set_initializing h2 m False)"
  using assms by (simp add: lazy_init_def)

theorem lazy_init_returns_fn_witness:
  "lazy_init_module shared_heap (VRef 0) = Inr 0 \<and>
   returning_call (VRef 0) () (set_initializing shared_heap 0 True)
     = (Inr (VInt 7), set_initializing shared_heap 0 True) \<and>
   fst (lazy_init returning_call (VRef 0) () shared_heap) = Inr (VRef 0)"
proof -
  have c: "returning_call (VRef 0) () (set_initializing shared_heap 0 True)
     = (Inr (VInt 7), set_initializing shared_heap 0 True)"
    by (simp add: returning_call_def)
  show ?thesis
    using lazy_init_returns_fn[where call = returning_call, OF lazy_init_module_shared_heap c] lazy_init_module_shared_heap c
    by simp
qed

section \<open>The functional wrapper: \<^verbatim>\<open>apply\<close> needs \<^verbatim>\<open>init\<close>\<close>

text \<open>
  Claim C3 as stated fails: on a handle fresh from \<^verbatim>\<open>functional(cls)(...)\<close>,
  \<^verbatim>\<open>apply\<close> fails by its assertion, with \<open>AssertionError\<close>; no statement of the
  wrapper raises \<open>NotInitializedError\<close>.
\<close>

theorem Functional_apply_NotInitializedError_counterexample:
  "Functional_apply (GraphDef_apply sum_merge double_invoke) (functional sum_cls [1] []) [5]
     = Inl AssertionError \<and>
   Functional_apply (GraphDef_apply sum_merge double_invoke) (functional sum_cls [1] []) [5]
     \<noteq> Inl NotInitializedError"
  by (simp add: Functional_apply_def functional_def)

text \<open>
  Claim C3, amended. On a handle whose graph definition is still \<^verbatim>\<open>None\<close> (as it is
  on every handle produced by \<^verbatim>\<open>functional(cls)(...)\<close>, and as it stays when
  \<^verbatim>\<open>init\<close> raises), \<^verbatim>\<open>apply(*states)\<close> fails with \<open>AssertionError\<close>. After a
  successful \<^verbatim>\<open>init\<close>, which constructs the module, returns the state of its split
  and retains the graph definition, \<^verbatim>\<open>apply\<close> merges the retained graph definition
  with the supplied states and invokes the reconstructed module.
\<close>

theorem Functional_apply_needs_init:
  assumes "Functional_init splt self r = (res, self')"
  shows "(graphdef self = None \<longrightarrow> Functional_apply ga self states = Inl AssertionError) \<and>
    graphdef (functional cls as kws :: ('a, 'm, 'g) Functional) = None \<and>
    (\<forall>e. res = Inl e \<longrightarrow> self' = self) \<and>
    (\<forall>state. res = Inr state \<longrightarrow>
       (\<exists>m. module_type self (args_fn self)
               (kwargs_fn self @ (case r of None \<Rightarrow> [] | Some v \<Rightarrow> [(''rngs'', v)])) = Inr m \<and>
            state = snd (splt m) \<and>
            graphdef self' = Some (fst (splt m)) \<and>
            Functional_apply (GraphDef_apply mrg run) self' states
              = run (mrg (fst (splt m)) states)))"
  using assms
  by (auto simp: Functional_init_def Functional_apply_def functional_def GraphDef_apply_def
      Let_def split_def split: if_splits sum.splits option.splits)

text \<open>A handle of the number-valued module class, before and after \<^verbatim>\<open>init\<close>.\<close>

theorem Functional_apply_needs_init_witness:
  "Functional_init pair_split (functional sum_cls [1] []) (Some 2)
     = (Inr 4, (functional sum_cls [1] [])\<lparr>graphdef := Some 3\<rparr>) \<and>
   Functional_apply (GraphDef_apply sum_merge double_invoke) (functional sum_cls [1] []) [5]
     = Inl AssertionError \<and>
   Functional_apply (GraphDef_apply sum_merge double_invoke)
     ((functional sum_cls [1] [])\<lparr>graphdef := Some 3\<rparr>) [5] = Inr 16"
proof -
  have i: "Functional_init pair_split (functional sum_cls [1] []) (Some 2)
     = (Inr 4, (functional sum_cls [1] [])\<lparr>graphdef := Some (3::nat)\<rparr>)"
    by (simp add: Functional_init_def functional_def sum_cls_def pair_split_def)
  show ?thesis
    using Functional_apply_needs_init[OF i, of "GraphDef_apply sum_merge double_invoke" "[5]" sum_cls "[1]" "[]" sum_merge double_invoke] i
    by (simp add: functional_def sum_cls_def pair_split_def sum_merge_def double_invoke_def)
qed

section \<open>\<^verbatim>\<open>ToNNX\<close>: the streams handed to the Linen module\<close>

lemma fold_raw_lookup:
  "distinct (map fst b) \<Longrightarrow>
   fold (\<lambda>(name, stream) d. d(name \<mapsto> f stream)) b d0 n
     = (case map_of b n of None \<Rightarrow> d0 n | Some s \<Rightarrow> Some (f s))"
proof (induction b arbitrary: d0)
  case Nil
  then show ?case by simp
next
  case (Cons p b)
  obtain k s where p: "p = (k, s)" by (cases p)
  from Cons.prems p have k: "map_of b k = None"
    by (auto simp: map_of_eq_None_iff)
  from Cons.prems have "distinct (map fst b)" by simp
  from Cons.IH[OF this] k show ?case
    by (auto simp: p split: option.splits)
qed

lemma raw_keys_lookup:
  "distinct (map fst b) \<Longrightarrow>
   raw_keys ops store (Some b) n = map_option (\<lambda>a. raw_value ops (store a)) (map_of b n)"
  by (cases "b = []") (auto simp: raw_keys_def rngs_truthy_def fold_raw_lookup split: option.splits)

text \<open>
  Claim C5. In a call of an initializing wrapper whose stream bundle (the per-call one,
  or the stored one in its place) is \<open>bundle\<close>, the Linen module's
  \<^verbatim>\<open>init_with_output\<close> receives the dictionary \<open>init_rngs\<close>. When the bundle has a
  stream \<^verbatim>\<open>default\<close> and no stream \<^verbatim>\<open>params\<close>, that dictionary holds the raw key
  of the \<^verbatim>\<open>default\<close> stream under \<^verbatim>\<open>params\<close>, has no entry \<^verbatim>\<open>default\<close>, and
  holds every other stream's raw key under the stream's own name. When the bundle has a
  stream \<^verbatim>\<open>params\<close>, nothing is renamed: every stream's raw key is under its own name.
\<close>

theorem ToNNX_init_default_to_params:
  assumes "initializing self"
    and "effective_rngs (rngs self) (ca_rngs ca) = Some bundle"
    and "distinct (map fst bundle)"
  shows "ToNNX_call ops vt self ca store =
      finish vt (ca_kwargs ca)
        (case ingest vt self
                (init_with_output (module self) (init_rngs ops store (Some bundle))
                   (ca_args ca) (ca_method ca) (ca_kwargs ca))
         of (res, self') \<Rightarrow> (res, self', store)) \<and>
    (\<forall>s. map_of bundle ''default'' = Some s \<and> map_of bundle ''params'' = None \<longrightarrow>
       init_rngs ops store (Some bundle) ''params'' = Some (raw_value ops (store s)) \<and>
       init_rngs ops store (Some bundle) ''default'' = None \<and>
       (\<forall>n. n \<noteq> ''params'' \<and> n \<noteq> ''default'' \<longrightarrow>
          init_rngs ops store (Some bundle) n
            = map_option (\<lambda>a. raw_value ops (store a)) (map_of bundle n))) \<and>
    (map_of bundle ''params'' \<noteq> None \<longrightarrow>
       (\<forall>n. init_rngs ops store (Some bundle) n
            = map_option (\<lambda>a. raw_value ops (store a)) (map_of bundle n)))"
proof -
  have call: "ToNNX_call ops vt self ca store =
      finish vt (ca_kwargs ca)
        (case ingest vt self
                (init_with_output (module self) (init_rngs ops store (Some bundle))
                   (ca_args ca) (ca_method ca) (ca_kwargs ca))
         of (res, self') \<Rightarrow> (res, self', store))"
    using assms(1,2) by (simp add: ToNNX_call_def init_branch_def)
  have look: "raw_keys ops store (Some bundle) n
      = map_option (\<lambda>a. raw_value ops (store a)) (map_of bundle n)" for n
    using assms(3) by (rule raw_keys_lookup)
  show ?thesis
    using call by (auto simp: init_rngs_def Let_def look)
qed

text \<open>A wrapper constructed with only a \<^verbatim>\<open>default\<close> stream, whose raw key is 7.\<close>

theorem ToNNX_init_default_to_params_witness:
  "initializing init_wrapper \<and>
   effective_rngs (rngs init_wrapper) (ca_rngs plain_call) = Some [(''default'', 0)] \<and>
   init_rngs counter_ops counter_store (Some [(''default'', 0)]) ''params'' = Some 7 \<and>
   init_rngs counter_ops counter_store (Some [(''default'', 0)]) ''default'' = None"
proof -
  have a: "initializing init_wrapper"
    and b: "effective_rngs (rngs init_wrapper) (ca_rngs plain_call) = Some [(''default'', 0)]"
    and c: "distinct (map fst [(''default'', 0::nat)])"
    by (simp_all add: init_wrapper_def ToNNX_new_def effective_rngs_def plain_call_def rngs_truthy_def)
  show ?thesis
    using ToNNX_init_default_to_params[OF a b c, of counter_ops two_types counter_store] a b
    by (simp add: counter_ops_def counter_store_def)
qed

section \<open>\<^verbatim>\<open>ToNNX\<close>: the updates of a mutable apply\<close>

lemma truthy_ne_False: "truthy v \<Longrightarrow> ne_False v"
  by (cases v) auto

lemma write_updates_all:
  "\<forall>cv\<in>set updates. vt (fst cv) \<noteq> None \<Longrightarrow> distinct (map fst updates) \<Longrightarrow>
   write_updates vt updates at =
     (None, \<lambda>c. case map_of updates c of
                  None \<Rightarrow> at c
                | Some v \<Rightarrow> map_option (\<lambda>ty. map_pytree (Pair ty) v) (vt c))"
proof (induction updates arbitrary: at)
  case Nil
  then show ?case by simp
next
  case (Cons p updates)
  obtain c v where p: "p = (c, v)" by (cases p)
  from Cons.prems p obtain ty where ty: "vt c = Some ty" by auto
  from Cons.prems p have c: "map_of updates c = None"
    by (auto simp: map_of_eq_None_iff)
  have "write_updates vt updates (at(c \<mapsto> map_pytree (Pair ty) v)) =
     (None, \<lambda>c'. case map_of updates c' of
                  None \<Rightarrow> (at(c \<mapsto> map_pytree (Pair ty) v)) c'
                | Some v \<Rightarrow> map_option (\<lambda>ty. map_pytree (Pair ty) v) (vt c'))"
    using Cons.prems by (intro Cons.IH) auto
  then show ?case
    using c by (auto simp: p ty fun_eq_iff split: option.splits)
qed

text \<open>
  Claim C6. In a call of an initialized wrapper with a truthy \<^verbatim>\<open>mutable\<close> keyword
  argument, when the Linen module's apply returns an output \<open>y\<close> with updates (a
  dictionary, so with distinct names, of collections that \<^verbatim>\<open>variable_type\<close>
  recognizes), the call returns \<open>y\<close> alone, and afterwards the attribute stored for
  every collection of the updates is the returned update, each leaf re-typed to the
  collection's variable type; the other attributes are as before the call.
\<close>

theorem ToNNX_mutable_apply_stores_updates:
  assumes "\<not> initializing self"
    and "map_of (ca_kwargs ca) ''mutable'' = Some mutable" and "truthy mutable"
    and "apply_branch ops self (effective_rngs (rngs self) (ca_rngs ca)) ca store
           = (Inr (WithUpdates y updates), self1, store1)"
    and "distinct (map fst updates)"
    and "\<forall>cv\<in>set updates. vt (fst cv) \<noteq> None"
  shows "\<exists>self'. ToNNX_call ops vt self ca store = (Inr (Plain y), self', store1) \<and>
    (\<forall>c v. (c, v) \<in> set updates \<longrightarrow>
       (\<exists>ty. vt c = Some ty \<and> attrs self' c = Some (map_pytree (Pair ty) v))) \<and>
    (\<forall>c. c \<notin> fst ` set updates \<longrightarrow> attrs self' c = attrs self c)"
proof -
  have self1: "self1 = self"
    using assms(4) by (auto simp: apply_branch_def split_def Let_def split: sum.splits)
  have m: "mutable_requested (ca_kwargs ca)"
    using assms(2,3) by (simp add: mutable_requested_def truthy_ne_False)
  let ?at = "\<lambda>c. case map_of updates c of
                  None \<Rightarrow> attrs self c
                | Some v \<Rightarrow> map_option (\<lambda>ty. map_pytree (Pair ty) v) (vt c)"
  have w: "write_updates vt updates (attrs self) = (None, ?at)"
    using assms(6,5) by (rule write_updates_all)
  have call: "ToNNX_call ops vt self ca store = (Inr (Plain y), self\<lparr>attrs := ?at\<rparr>, store1)"
    using assms(1,4) m w by (simp add: ToNNX_call_def finish_def split_updates_def self1)
  have stored: "\<exists>ty. vt c = Some ty \<and> ?at c = Some (map_pytree (Pair ty) v)"
    if "(c, v) \<in> set updates" for c v
  proof -
    from that assms(5) have "map_of updates c = Some v" by simp
    moreover from that assms(6) obtain ty where "vt c = Some ty" by fastforce
    ultimately show ?thesis by simp
  qed
  have kept: "?at c = attrs self c" if "c \<notin> fst ` set updates" for c
  proof -
    from that have "map_of updates c = None" by (simp add: map_of_eq_None_iff)
    then show ?thesis by simp
  qed
  show ?thesis
    using call stored kept by (intro exI[of _ "self\<lparr>attrs := ?at\<rparr>"]) simp
qed

text \<open>
  An initialized wrapper with a stored \<^verbatim>\<open>params\<close> collection, called with
  \<^verbatim>\<open>mutable=['batch_stats']\<close>.
\<close>

lemma apply_branch_ready:
  "apply_branch counter_ops ready_wrapper
     (effective_rngs (rngs ready_wrapper) (ca_rngs mutable_call)) mutable_call counter_store
   = (Inr (WithUpdates 17 [(''batch_stats'', Dict [(''mean'', Leaf 5)])]), ready_wrapper,
      counter_store(1 := (17, 1)))"
  by (simp add: apply_branch_def collect_variables_def ready_wrapper_def ToNNX_new_def
      effective_rngs_def mutable_call_def rngs_truthy_def draw_keys_def counter_ops_def
      counter_store_def echo_linen_def)

theorem ToNNX_mutable_apply_stores_updates_witness:
  "\<not> initializing ready_wrapper \<and>
   map_of (ca_kwargs mutable_call) ''mutable'' = Some (VList [VStr ''batch_stats'']) \<and>
   truthy (VList [VStr ''batch_stats'']) \<and>
   (\<exists>self'. ToNNX_call counter_ops two_types ready_wrapper mutable_call counter_store
        = (Inr (Plain 17), self', counter_store(1 := (17, 1))) \<and>
      attrs self' ''batch_stats'' = Some (Dict [(''mean'', Leaf (1, 5))]) \<and>
      attrs self' ''params'' = attrs ready_wrapper ''params'')"
proof -
  have a: "\<not> initializing ready_wrapper"
    by (simp add: ready_wrapper_def ToNNX_new_def)
  have b: "map_of (ca_kwargs mutable_call) ''mutable'' = Some (VList [VStr ''batch_stats''])"
    and c: "truthy (VList [VStr ''batch_stats''])"
    by (simp_all add: mutable_call_def)
  have d: "distinct (map fst [(''batch_stats'', Dict [(''mean'', Leaf (5::nat))])])"
    and e: "\<forall>cv\<in>set [(''batch_stats'', Dict [(''mean'', Leaf (5::nat))])]. two_types (fst cv) \<noteq> None"
    by (simp_all add: two_types_def)
  from ToNNX_mutable_apply_stores_updates[OF a b c apply_branch_ready d e]
  obtain self' where
    "ToNNX_call counter_ops two_types ready_wrapper mutable_call counter_store
        = (Inr (Plain 17), self', counter_store(1 := (17, 1)))"
    "\<forall>c v. (c, v) \<in> set [(''batch_stats'', Dict [(''mean'', Leaf (5::nat))])] \<longrightarrow>
       (\<exists>ty. two_types c = Some ty \<and> attrs self' c = Some (map_pytree (Pair ty) v))"
    "\<forall>c. c \<notin> fst ` set [(''batch_stats'', Dict [(''mean'', Leaf (5::nat))])] \<longrightarrow>
       attrs self' c = attrs ready_wrapper c"
    by blast
  then show ?thesis
    using a b c by (intro conjI exI[of _ self']) (auto simp: two_types_def)
qed

section \<open>\<^verbatim>\<open>ToNNX\<close>: which stream bundle a call uses\<close>

lemma effective_rngs_self: "effective_rngs r r = r"
  by (simp add: effective_rngs_def)

lemma fold_setattr:
  "fold (\<lambda>(col, tree) w.
           w\<lparr>attrs := (attrs w)(col \<mapsto> tree),
             linen_collections := insert col (linen_collections w)\<rparr>) typed w0
   = w0\<lparr>attrs := fold (\<lambda>(col, tree) at. at(col \<mapsto> tree)) typed (attrs w0),
        linen_collections := fold (\<lambda>(col, tree). insert col) typed (linen_collections w0)\<rparr>"
  by (induction typed arbitrary: w0) (auto simp: split_def)

lemma ingest_rngs_update:
  "ingest vt (self\<lparr>rngs := r'\<rparr>) res =
     (case ingest vt self res of (out, self') \<Rightarrow> (out, self'\<lparr>rngs := r'\<rparr>))"
  by (auto simp: ingest_def fold_setattr split: sum.splits option.splits prod.splits)

lemma split_updates_rngs_update:
  "split_updates vt kws out (self\<lparr>rngs := r'\<rparr>) =
     (case split_updates vt kws out self of (res, self') \<Rightarrow> (res, self'\<lparr>rngs := r'\<rparr>))"
  by (auto simp: split_updates_def split: linen_out.splits option.splits prod.splits)

lemma collect_variables_rngs_update [simp]:
  "collect_variables (self\<lparr>rngs := r'\<rparr>) = collect_variables self"
  by (simp add: collect_variables_def cong: if_cong)

text \<open>
  What drawing from a bundle gives, what a falsy bundle gives, and the call written out
  with the bundle that the first statement of \<^verbatim>\<open>__call__\<close> selects.
\<close>

lemma fold_draw_keys:
  "distinct (map fst b) \<Longrightarrow> distinct (map snd b) \<Longrightarrow>
   fold (\<lambda>(name, stream) (d, st).
           case next_key ops (st stream) of
             (key, s') \<Rightarrow> (d(name \<mapsto> key), st(stream := s')))
        b (d0, st0)
   = (\<lambda>n. case map_of b n of
             None \<Rightarrow> d0 n
           | Some a \<Rightarrow> Some (fst (next_key ops (st0 a))),
      \<lambda>a. if a \<in> snd ` set b then snd (next_key ops (st0 a)) else st0 a)"
proof (induction b arbitrary: d0 st0)
  case Nil
  then show ?case by simp
next
  case (Cons p b)
  obtain n1 a1 where p: "p = (n1, a1)" by (cases p)
  obtain k1 s1 where k: "next_key ops (st0 a1) = (k1, s1)"
    by (cases "next_key ops (st0 a1)")
  from Cons.prems p have n1: "map_of b n1 = None" and a1: "a1 \<notin> snd ` set b"
    and d: "distinct (map fst b)" "distinct (map snd b)"
    by (auto simp: map_of_eq_None_iff)
  have other: "a \<noteq> a1" if "map_of b n = Some a" for n a
  proof -
    from that have "(n, a) \<in> set b" by (rule map_of_SomeD)
    then have "a \<in> snd ` set b" by force
    with a1 show ?thesis by auto
  qed
  have "fold (\<lambda>(name, stream) (d, st).
           case next_key ops (st stream) of
             (key, s') \<Rightarrow> (d(name \<mapsto> key), st(stream := s')))
        (p # b) (d0, st0)
      = fold (\<lambda>(name, stream) (d, st).
           case next_key ops (st stream) of
             (key, s') \<Rightarrow> (d(name \<mapsto> key), st(stream := s')))
        b (d0(n1 \<mapsto> k1), st0(a1 := s1))"
    by (simp add: p k)
  also have "\<dots> = (\<lambda>n. case map_of b n of
             None \<Rightarrow> (d0(n1 \<mapsto> k1)) n
           | Some a \<Rightarrow> Some (fst (next_key ops ((st0(a1 := s1)) a))),
      \<lambda>a. if a \<in> snd ` set b then snd (next_key ops ((st0(a1 := s1)) a))
           else (st0(a1 := s1)) a)"
    by (rule Cons.IH[OF d])
  also have "\<dots> = (\<lambda>n. case map_of (p # b) n of
             None \<Rightarrow> d0 n
           | Some a \<Rightarrow> Some (fst (next_key ops (st0 a))),
      \<lambda>a. if a \<in> snd ` set (p # b) then snd (next_key ops (st0 a)) else st0 a)"
    using n1 a1 other by (auto simp: p k fun_eq_iff split: option.splits)
  finally show ?case .
qed

lemma draw_keys_lookup:
  "distinct (map fst b) \<Longrightarrow> distinct (map snd b) \<Longrightarrow>
   draw_keys ops (Some b) store
   = (\<lambda>n. map_option (\<lambda>a. fst (next_key ops (store a))) (map_of b n),
      \<lambda>a. if a \<in> snd ` set b then snd (next_key ops (store a)) else store a)"
  by (cases "b = []")
    (auto simp: draw_keys_def rngs_truthy_def fold_draw_keys fun_eq_iff split: option.splits)

lemma falsy_bundle_no_keys:
  "\<not> rngs_truthy b \<Longrightarrow> init_rngs ops store b = Map.empty \<and> draw_keys ops b store = (Map.empty, store)"
  by (simp add: init_rngs_def raw_keys_def draw_keys_def)

lemma ToNNX_call_bundle:
  "ToNNX_call ops vt self ca store =
     finish vt (ca_kwargs ca)
       (if initializing self
        then (case ingest vt self
                     (init_with_output (module self)
                        (init_rngs ops store (effective_rngs (rngs self) (ca_rngs ca)))
                        (ca_args ca) (ca_method ca) (ca_kwargs ca))
              of (res, self') \<Rightarrow> (res, self', store))
        else (case collect_variables self of
                Inl e \<Rightarrow> (Inl e, self, store)
              | Inr vs \<Rightarrow>
                  (apply_linen (module self) vs (ca_args ca)
                     (fst (draw_keys ops (effective_rngs (rngs self) (ca_rngs ca)) store))
                     (ca_method ca) (ca_kwargs ca),
                   self,
                   snd (draw_keys ops (effective_rngs (rngs self) (ca_rngs ca)) store))))"
  by (simp add: ToNNX_call_def init_branch_def apply_branch_def Let_def split_def
      cong: if_cong sum.case_cong)

text \<open>
  Claim C9. The bundle given to the constructor is stored on the wrapper. In a call
  with no per-call bundle, or a falsy one, the stored bundle is used in its place, in
  both branches: an initializing wrapper hands \<^verbatim>\<open>init_with_output\<close> the dictionary
  built from the stored bundle, and an initialized wrapper hands \<^verbatim>\<open>apply\<close> the keys
  drawn from the streams of the stored bundle, whose states the call advances; the call
  does what the same call with the stored bundle passed as the per-call bundle does. A
  truthy per-call bundle takes precedence: both branches build the dictionary from the
  per-call bundle, and whatever bundle is stored, the call gives the same result, the
  same store of streams and the same wrapper but for the stored bundle, which it leaves
  as it was. What the two dictionaries hold is fixed by the bundle: nothing for a falsy
  bundle; for a bundle of distinct names the raw key of every stream (with
  \<^verbatim>\<open>default\<close> renamed to \<^verbatim>\<open>params\<close> as in claim C5) when initializing; and, for
  a bundle of distinct names and distinct streams, the next key of every stream
  otherwise, every stream of the bundle being advanced once and no other stream at all.
\<close>

theorem ToNNX_call_rngs_precedence:
  "rngs (ToNNX_new m r0 :: ('k, 'a, 'mt, 'o, 'v, 't) ToNNX) = r0 \<and>
   (\<not> rngs_truthy (ca_rngs ca) \<longrightarrow>
      effective_rngs (rngs self) (ca_rngs ca) = rngs self \<and>
      ToNNX_call ops vt self ca store =
        finish vt (ca_kwargs ca)
          (if initializing self
           then (case ingest vt self
                        (init_with_output (module self) (init_rngs ops store (rngs self))
                           (ca_args ca) (ca_method ca) (ca_kwargs ca))
                 of (res, self') \<Rightarrow> (res, self', store))
           else (case collect_variables self of
                   Inl e \<Rightarrow> (Inl e, self, store)
                 | Inr vs \<Rightarrow>
                     (apply_linen (module self) vs (ca_args ca)
                        (fst (draw_keys ops (rngs self) store)) (ca_method ca) (ca_kwargs ca),
                      self, snd (draw_keys ops (rngs self) store)))) \<and>
      ToNNX_call ops vt self ca store = ToNNX_call ops vt self (ca\<lparr>ca_rngs := rngs self\<rparr>) store) \<and>
   (rngs_truthy (ca_rngs ca) \<longrightarrow>
      effective_rngs (rngs self) (ca_rngs ca) = ca_rngs ca \<and>
      ToNNX_call ops vt self ca store =
        finish vt (ca_kwargs ca)
          (if initializing self
           then (case ingest vt self
                        (init_with_output (module self) (init_rngs ops store (ca_rngs ca))
                           (ca_args ca) (ca_method ca) (ca_kwargs ca))
                 of (res, self') \<Rightarrow> (res, self', store))
           else (case collect_variables self of
                   Inl e \<Rightarrow> (Inl e, self, store)
                 | Inr vs \<Rightarrow>
                     (apply_linen (module self) vs (ca_args ca)
                        (fst (draw_keys ops (ca_rngs ca) store)) (ca_method ca) (ca_kwargs ca),
                      self, snd (draw_keys ops (ca_rngs ca) store)))) \<and>
      ToNNX_call ops vt (self\<lparr>rngs := r'\<rparr>) ca store =
        (case ToNNX_call ops vt self ca store of
           (res, self', store') \<Rightarrow> (res, self'\<lparr>rngs := r'\<rparr>, store'))) \<and>
   (\<not> rngs_truthy b \<longrightarrow>
      init_rngs ops store b = Map.empty \<and> draw_keys ops b store = (Map.empty, store)) \<and>
   (distinct (map fst bundle) \<longrightarrow>
      init_rngs ops store (Some bundle) =
        (let d = (\<lambda>n. map_option (\<lambda>a. raw_value ops (store a)) (map_of bundle n))
         in if d ''params'' = None \<and> d ''default'' \<noteq> None
            then (d(''default'' := None))(''params'' := d ''default'')
            else d)) \<and>
   (distinct (map fst bundle) \<and> distinct (map snd bundle) \<longrightarrow>
      draw_keys ops (Some bundle) store =
        (\<lambda>n. map_option (\<lambda>a. fst (next_key ops (store a))) (map_of bundle n),
         \<lambda>a. if a \<in> snd ` set bundle then snd (next_key ops (store a)) else store a))"
proof (intro conjI impI)
  show "rngs (ToNNX_new m r0 :: ('k, 'a, 'mt, 'o, 'v, 't) ToNNX) = r0"
    by (simp add: ToNNX_new_def)
next
  assume "\<not> rngs_truthy (ca_rngs ca)"
  then show e: "effective_rngs (rngs self) (ca_rngs ca) = rngs self"
    by (simp add: effective_rngs_def)
  show "ToNNX_call ops vt self ca store =
        finish vt (ca_kwargs ca)
          (if initializing self
           then (case ingest vt self
                        (init_with_output (module self) (init_rngs ops store (rngs self))
                           (ca_args ca) (ca_method ca) (ca_kwargs ca))
                 of (res, self') \<Rightarrow> (res, self', store))
           else (case collect_variables self of
                   Inl e \<Rightarrow> (Inl e, self, store)
                 | Inr vs \<Rightarrow>
                     (apply_linen (module self) vs (ca_args ca)
                        (fst (draw_keys ops (rngs self) store)) (ca_method ca) (ca_kwargs ca),
                      self, snd (draw_keys ops (rngs self) store))))"
    using ToNNX_call_bundle[of ops vt self ca store] by (simp only: e)
  show "ToNNX_call ops vt self ca store = ToNNX_call ops vt self (ca\<lparr>ca_rngs := rngs self\<rparr>) store"
    using e by (auto simp: ToNNX_call_def effective_rngs_self init_branch_def apply_branch_def
        Let_def split: sum.splits)
next
  assume t: "rngs_truthy (ca_rngs ca)"
  then show e: "effective_rngs (rngs self) (ca_rngs ca) = ca_rngs ca"
    by (simp add: effective_rngs_def)
  have e': "effective_rngs r' (ca_rngs ca) = ca_rngs ca"
    using t by (simp add: effective_rngs_def)
  show "ToNNX_call ops vt self ca store =
        finish vt (ca_kwargs ca)
          (if initializing self
           then (case ingest vt self
                        (init_with_output (module self) (init_rngs ops store (ca_rngs ca))
                           (ca_args ca) (ca_method ca) (ca_kwargs ca))
                 of (res, self') \<Rightarrow> (res, self', store))
           else (case collect_variables self of
                   Inl e \<Rightarrow> (Inl e, self, store)
                 | Inr vs \<Rightarrow>
                     (apply_linen (module self) vs (ca_args ca)
                        (fst (draw_keys ops (ca_rngs ca) store)) (ca_method ca) (ca_kwargs ca),
                      self, snd (draw_keys ops (ca_rngs ca) store))))"
    using ToNNX_call_bundle[of ops vt self ca store] by (simp only: e)
  show "ToNNX_call ops vt (self\<lparr>rngs := r'\<rparr>) ca store =
        (case ToNNX_call ops vt self ca store of
           (res, self', store') \<Rightarrow> (res, self'\<lparr>rngs := r'\<rparr>, store'))"
    by (auto simp: ToNNX_call_def e e' init_branch_def apply_branch_def finish_def
        ingest_rngs_update split_updates_rngs_update Let_def
        split: sum.splits prod.splits)
next
  assume "\<not> rngs_truthy b"
  then show "init_rngs ops store b = Map.empty" "draw_keys ops b store = (Map.empty, store)"
    using falsy_bundle_no_keys[of b ops store] by simp_all
next
  assume d: "distinct (map fst bundle)"
  have "raw_keys ops store (Some bundle)
      = (\<lambda>n. map_option (\<lambda>a. raw_value ops (store a)) (map_of bundle n))"
    by (simp add: fun_eq_iff raw_keys_lookup[OF d])
  then show "init_rngs ops store (Some bundle) =
        (let d = (\<lambda>n. map_option (\<lambda>a. raw_value ops (store a)) (map_of bundle n))
         in if d ''params'' = None \<and> d ''default'' \<noteq> None
            then (d(''default'' := None))(''params'' := d ''default'')
            else d)"
    by (simp add: init_rngs_def)
next
  assume "distinct (map fst bundle) \<and> distinct (map snd bundle)"
  then show "draw_keys ops (Some bundle) store =
        (\<lambda>n. map_option (\<lambda>a. fst (next_key ops (store a))) (map_of bundle n),
         \<lambda>a. if a \<in> snd ` set bundle then snd (next_key ops (store a)) else store a)"
    by (simp add: draw_keys_lookup)
qed

text \<open>
  The initializing wrapper stores a \<^verbatim>\<open>default\<close> stream whose raw key is 7, and a
  per-call bundle holds a \<^verbatim>\<open>params\<close> stream whose raw key is 37. The initialized
  wrapper stores a \<^verbatim>\<open>dropout\<close> stream whose next key is 17, and a per-call bundle
  holds a \<^verbatim>\<open>dropout\<close> stream whose next key is 27.
\<close>

theorem ToNNX_call_rngs_precedence_witness:
  "\<not> rngs_truthy (ca_rngs plain_call) \<and>
   rngs init_wrapper = Some [(''default'', 0)] \<and>
   fst (ToNNX_call counter_ops two_types init_wrapper plain_call counter_store)
     = Inr (Plain 7) \<and>
   \<not> rngs_truthy (ca_rngs mutable_call) \<and>
   rngs ready_wrapper = Some [(''dropout'', 1)] \<and>
   fst (ToNNX_call counter_ops two_types ready_wrapper mutable_call counter_store)
     = Inr (Plain 17) \<and>
   rngs_truthy (ca_rngs (mutable_call\<lparr>ca_rngs := Some [(''dropout'', 2)]\<rparr>)) \<and>
   fst (ToNNX_call counter_ops two_types ready_wrapper
          (mutable_call\<lparr>ca_rngs := Some [(''dropout'', 2)]\<rparr>) counter_store)
     = Inr (Plain 27) \<and>
   fst (ToNNX_call counter_ops two_types (ready_wrapper\<lparr>rngs := None\<rparr>)
          (mutable_call\<lparr>ca_rngs := Some [(''dropout'', 2)]\<rparr>) counter_store)
     = Inr (Plain 27) \<and>
   rngs_truthy (ca_rngs (plain_call\<lparr>ca_rngs := Some [(''params'', 3)]\<rparr>)) \<and>
   fst (ToNNX_call counter_ops two_types init_wrapper
          (plain_call\<lparr>ca_rngs := Some [(''params'', 3)]\<rparr>) counter_store)
     = Inr (Plain 37)"
proof -
  let ?percall = "mutable_call\<lparr>ca_rngs := Some [(''dropout'', 2)]\<rparr>"
  let ?initcall = "plain_call\<lparr>ca_rngs := Some [(''params'', 3)]\<rparr>"
  have a: "\<not> rngs_truthy (ca_rngs plain_call)"
    and b: "\<not> rngs_truthy (ca_rngs mutable_call)"
    and c: "rngs_truthy (ca_rngs ?percall)"
    and d: "rngs_truthy (ca_rngs ?initcall)"
    by (simp_all add: plain_call_def mutable_call_def rngs_truthy_def)
  have r: "rngs init_wrapper = Some [(''default'', 0)]"
    "rngs ready_wrapper = Some [(''dropout'', 1)]"
    by (simp_all add: init_wrapper_def ready_wrapper_def ToNNX_new_def)
  note ev = finish_def split_updates_def mutable_requested_def ingest_def
    nn_var_to_nnx_state_def collect_variables_def init_rngs_def raw_keys_def draw_keys_def
    rngs_truthy_def init_wrapper_def ready_wrapper_def ToNNX_new_def plain_call_def
    mutable_call_def counter_ops_def counter_store_def echo_linen_def two_types_def
  have e1: "ToNNX_call counter_ops two_types init_wrapper plain_call counter_store =
        finish two_types (ca_kwargs plain_call)
          (if initializing init_wrapper
           then (case ingest two_types init_wrapper
                        (init_with_output (module init_wrapper)
                           (init_rngs counter_ops counter_store (rngs init_wrapper))
                           (ca_args plain_call) (ca_method plain_call) (ca_kwargs plain_call))
                 of (res, self') \<Rightarrow> (res, self', counter_store))
           else (case collect_variables init_wrapper of
                   Inl e \<Rightarrow> (Inl e, init_wrapper, counter_store)
                 | Inr vs \<Rightarrow>
                     (apply_linen (module init_wrapper) vs (ca_args plain_call)
                        (fst (draw_keys counter_ops (rngs init_wrapper) counter_store))
                        (ca_method plain_call) (ca_kwargs plain_call),
                      init_wrapper, snd (draw_keys counter_ops (rngs init_wrapper) counter_store))))"
    using ToNNX_call_rngs_precedence[of echo_linen None plain_call init_wrapper
        counter_ops two_types counter_store None None "[]"] a
    by blast
  have w1: "fst (ToNNX_call counter_ops two_types init_wrapper plain_call counter_store)
     = Inr (Plain 7)"
    unfolding e1 by (simp add: ev)
  have e2: "ToNNX_call counter_ops two_types ready_wrapper mutable_call counter_store =
        finish two_types (ca_kwargs mutable_call)
          (if initializing ready_wrapper
           then (case ingest two_types ready_wrapper
                        (init_with_output (module ready_wrapper)
                           (init_rngs counter_ops counter_store (rngs ready_wrapper))
                           (ca_args mutable_call) (ca_method mutable_call) (ca_kwargs mutable_call))
                 of (res, self') \<Rightarrow> (res, self', counter_store))
           else (case collect_variables ready_wrapper of
                   Inl e \<Rightarrow> (Inl e, ready_wrapper, counter_store)
                 | Inr vs \<Rightarrow>
                     (apply_linen (module ready_wrapper) vs (ca_args mutable_call)
                        (fst (draw_keys counter_ops (rngs ready_wrapper) counter_store))
                        (ca_method mutable_call) (ca_kwargs mutable_call),
                      ready_wrapper, snd (draw_keys counter_ops (rngs ready_wrapper) counter_store))))"
    using ToNNX_call_rngs_precedence[of echo_linen None mutable_call ready_wrapper
        counter_ops two_types counter_store None None "[]"] b
    by blast
  have w2: "fst (ToNNX_call counter_ops two_types ready_wrapper mutable_call counter_store)
     = Inr (Plain 17)"
    unfolding e2 by (simp add: ev)
  have e3: "ToNNX_call counter_ops two_types ready_wrapper ?percall counter_store =
        finish two_types (ca_kwargs ?percall)
          (if initializing ready_wrapper
           then (case ingest two_types ready_wrapper
                        (init_with_output (module ready_wrapper)
                           (init_rngs counter_ops counter_store (ca_rngs ?percall))
                           (ca_args ?percall) (ca_method ?percall) (ca_kwargs ?percall))
                 of (res, self') \<Rightarrow> (res, self', counter_store))
           else (case collect_variables ready_wrapper of
                   Inl e \<Rightarrow> (Inl e, ready_wrapper, counter_store)
                 | Inr vs \<Rightarrow>
                     (apply_linen (module ready_wrapper) vs (ca_args ?percall)
                        (fst (draw_keys counter_ops (ca_rngs ?percall) counter_store))
                        (ca_method ?percall) (ca_kwargs ?percall),
                      ready_wrapper, snd (draw_keys counter_ops (ca_rngs ?percall) counter_store))))"
    and q: "ToNNX_call counter_ops two_types (ready_wrapper\<lparr>rngs := None\<rparr>) ?percall counter_store
     = (case ToNNX_call counter_ops two_types ready_wrapper ?percall counter_store of
           (res, self', store') \<Rightarrow> (res, self'\<lparr>rngs := None\<rparr>, store'))"
    using ToNNX_call_rngs_precedence[of echo_linen None ?percall ready_wrapper
        counter_ops two_types counter_store None None "[]"] c
    by blast+
  have w3: "fst (ToNNX_call counter_ops two_types ready_wrapper ?percall counter_store)
     = Inr (Plain 27)"
    unfolding e3 by (simp add: ev)
  have w4: "fst (ToNNX_call counter_ops two_types (ready_wrapper\<lparr>rngs := None\<rparr>)
      ?percall counter_store) = Inr (Plain 27)"
    unfolding q using w3 by (simp add: split_def)
  have e5: "ToNNX_call counter_ops two_types init_wrapper ?initcall counter_store =
        finish two_types (ca_kwargs ?initcall)
          (if initializing init_wrapper
           then (case ingest two_types init_wrapper
                        (init_with_output (module init_wrapper)
                           (init_rngs counter_ops counter_store (ca_rngs ?initcall))
                           (ca_args ?initcall) (ca_method ?initcall) (ca_kwargs ?initcall))
                 of (res, self') \<Rightarrow> (res, self', counter_store))
           else (case collect_variables init_wrapper of
                   Inl e \<Rightarrow> (Inl e, init_wrapper, counter_store)
                 | Inr vs \<Rightarrow>
                     (apply_linen (module init_wrapper) vs (ca_args ?initcall)
                        (fst (draw_keys counter_ops (ca_rngs ?initcall) counter_store))
                        (ca_method ?initcall) (ca_kwargs ?initcall),
                      init_wrapper, snd (draw_keys counter_ops (ca_rngs ?initcall) counter_store))))"
    using ToNNX_call_rngs_precedence[of echo_linen None ?initcall init_wrapper
        counter_ops two_types counter_store None None "[]"] d
    by blast
  have w5: "fst (ToNNX_call counter_ops two_types init_wrapper ?initcall counter_store)
     = Inr (Plain 37)"
    unfolding e5 by (simp add: ev)
  show ?thesis
    using a b c d r w1 w2 w3 w4 w5 by blast
qed

section \<open>\<^verbatim>\<open>ToLinen\<close>: the apply path\<close>

text \<open>
  Claim C4. A call of the wrapper outside the initialization phase, in a scope whose
  collection \<^verbatim>\<open>nnx\<close> holds no value under \<^verbatim>\<open>graphdef\<close> (there is no such
  collection, or it has no such entry), fails with \<open>MissingGraphDefError\<close> and leaves
  the scope as it was: nothing is merged and no module is called.
\<close>

theorem ToLinen_apply_without_graphdef:
  assumes "\<not> is_initializing sc"
    and "lookup_variable (variables sc) ''nnx'' ''graphdef'' = None"
  shows "ToLinen_call env self sc x = (Inl MissingGraphDefError, sc)"
  using assms by (simp add: ToLinen_call_def get_variable_def)

text \<open>A scope with no variables at all.\<close>

theorem ToLinen_apply_without_graphdef_witness:
  "\<not> is_initializing empty_scope \<and>
   lookup_variable (variables empty_scope) ''nnx'' ''graphdef'' = None \<and>
   ToLinen_call toy_env toy_wrapper empty_scope () = (Inl MissingGraphDefError, empty_scope)"
proof -
  have a: "\<not> is_initializing empty_scope"
    and b: "lookup_variable (variables empty_scope) ''nnx'' ''graphdef'' = None"
    by (simp_all add: empty_scope_def lookup_variable_def)
  show ?thesis
    using ToLinen_apply_without_graphdef[OF a b, of toy_env toy_wrapper "()"] a b by simp
qed

text \<open>
  Claim C10. In a call of the wrapper outside the initialization phase that finds the
  stored graph definition, \<^verbatim>\<open>nnx.merge\<close> is handed the graph definition and the
  state \<open>apply_state\<close>. That state is built from the states of every stored
  collection whose name is not \<^verbatim>\<open>nnx\<close>, whatever the name, in stored order: their
  merge when there is at least one such collection, the empty state when there is none.
\<close>

theorem ToLinen_apply_state_all_but_nnx:
  fixes sc :: "('g, 't, 'v, 'sc) scope"
  assumes "\<not> is_initializing sc"
    and "get_variable sc ''nnx'' ''graphdef'' = Inr gdef"
  shows "ToLinen_call env self sc x =
      after_merge env sc x (nnx_merge env gdef (apply_state env (variables sc))) \<and>
    collected_states (variables sc) = [state. (col, state) \<leftarrow> variables sc, col \<noteq> ''nnx''] \<and>
    ((\<exists>col\<in>fst ` set (variables sc). col \<noteq> ''nnx'') \<longrightarrow>
       apply_state env (variables sc) = merge_states env (collected_states (variables sc))) \<and>
    ((\<forall>col\<in>fst ` set (variables sc). col = ''nnx'') \<longrightarrow> apply_state env (variables sc) = [])"
proof -
  have c: "collected_states vars = [state. (col, state) \<leftarrow> vars, col \<noteq> ''nnx'']"
    for vars :: "('g, 't, 'v) collections"
    by (induction vars) (auto simp: collected_states_def)
  have e: "collected_states vars = [] \<longleftrightarrow> (\<forall>col\<in>fst ` set vars. col = ''nnx'')"
    for vars :: "('g, 't, 'v) collections"
    by (auto simp: collected_states_def filter_empty_conv)
  show ?thesis
    using assms c[of "variables sc"] e[of "variables sc"]
    by (auto simp: ToLinen_call_def apply_state_def Let_def)
qed

text \<open>A scope that stores the graph definition and two collections.\<close>

theorem ToLinen_apply_state_all_but_nnx_witness:
  "\<not> is_initializing stored_scope \<and>
   get_variable stored_scope ''nnx'' ''graphdef'' = Inr (GraphDefV 3) \<and>
   collected_states (variables stored_scope)
     = [[(''kernel'', StateV (Leaf (0, 4)))], [(''mean'', StateV (Leaf (1, 5)))]] \<and>
   apply_state toy_env (variables stored_scope)
     = [(''kernel'', StateV (Leaf (0, 4))), (''mean'', StateV (Leaf (1, 5)))] \<and>
   ToLinen_call toy_env toy_wrapper stored_scope () = (Inr 2, stored_scope)"
proof -
  have a: "\<not> is_initializing stored_scope"
    and b: "get_variable stored_scope ''nnx'' ''graphdef'' = Inr (GraphDefV 3)"
    by (simp_all add: stored_scope_def empty_scope_def get_variable_def lookup_variable_def)
  have c: "collected_states (variables stored_scope)
     = [[(''kernel'', StateV (Leaf (0, 4)))], [(''mean'', StateV (Leaf (1, 5)))]]"
    by (simp add: collected_states_def stored_scope_def)
  have g: "\<exists>col\<in>fst ` set (variables stored_scope). col \<noteq> ''nnx''"
    by (simp add: stored_scope_def)
  have call: "ToLinen_call toy_env toy_wrapper stored_scope () =
      after_merge toy_env stored_scope ()
        (nnx_merge toy_env (GraphDefV 3) (apply_state toy_env (variables stored_scope)))"
    and st: "apply_state toy_env (variables stored_scope)
      = merge_states toy_env (collected_states (variables stored_scope))"
    using ToLinen_apply_state_all_but_nnx[OF a b, of toy_env toy_wrapper "()"] g by blast+
  have st': "apply_state toy_env (variables stored_scope)
     = [(''kernel'', StateV (Leaf (0, 4))), (''mean'', StateV (Leaf (1, 5)))]"
    unfolding st c by (simp add: toy_env_def)
  have m: "nnx_merge toy_env (GraphDefV 3)
      [(''kernel'', StateV (Leaf (0, 4))), (''mean'', StateV (Leaf (1, 5)))] = Inr 2"
    by (simp add: toy_env_def)
  have f: "after_merge toy_env stored_scope () (Inr 2) = (Inr 2, stored_scope)"
    by (simp add: after_merge_def linen_rngs_dict_def toy_env_def update_variables_def
        stored_scope_def empty_scope_def state_types_def)
  have "ToLinen_call toy_env toy_wrapper stored_scope () = (Inr 2, stored_scope)"
    unfolding call st' m f ..
  with a b c st' show ?thesis by blast
qed

section \<open>\<^verbatim>\<open>ToLinen\<close>: capturing the module twice\<close>

text \<open>
  Two assignments to a dictionary commute when the key assigned second is already
  present, and so do two \<^verbatim>\<open>put_variable\<close> calls; a sequence of puts run a second
  time finds every name present and rewrites the values it wrote.
\<close>

lemma update_commute_present:
  "k \<noteq> k' \<Longrightarrow> k' \<in> fst ` set al \<Longrightarrow>
   AList.update k' v' (AList.update k v al) = AList.update k v (AList.update k' v' al)"
  by (induction al) auto

lemma put_variable_last:
  "put_variable c k v (put_variable c k v' vars) = put_variable c k v vars"
  by (simp add: put_variable_def update_conv' update_last)

lemma lookup_put_variable:
  "lookup_variable (put_variable c k v vars) c' k' =
     (if c' = c \<and> k' = k then Some v else lookup_variable vars c' k')"
  by (auto simp: lookup_variable_def put_variable_def update_conv' split: option.splits)

lemma present_put_variable: "present vars c' k' \<Longrightarrow> present (put_variable c k v vars) c' k'"
  by (simp add: present_def lookup_put_variable)

lemma present_put_variable_same: "present (put_variable c k v vars) c k"
  by (simp add: present_def lookup_put_variable)

lemma put_variable_commute:
  assumes "(c, k) \<noteq> (c', k')" and "present vars c' k'"
  shows "put_variable c' k' v' (put_variable c k v vars)
       = put_variable c k v (put_variable c' k' v' vars)"
proof -
  from assms(2) obtain d y where d: "map_of vars c' = Some d" and y: "map_of d k' = Some y"
    by (auto simp: present_def lookup_variable_def split: option.splits)
  from y have "(k', y) \<in> set d" by (rule map_of_SomeD)
  then have k': "k' \<in> fst ` set d" by force
  from d have c': "c' \<in> fst ` set vars"
    by (metis domI dom_map_of_conv_image_fst)
  show ?thesis
  proof (cases "c = c'")
    case True
    with assms(1) have "k \<noteq> k'" by simp
    then show ?thesis
      using True d k' by (simp add: put_variable_def update_conv' update_last update_commute_present)
  next
    case False
    then show ?thesis
      using c' by (simp add: put_variable_def update_conv' update_commute_present)
  qed
qed

lemma put_all_Cons: "put_all ((c, k, v) # ps) vars = put_all ps (put_variable c k v vars)"
  by (simp add: put_all_def)

lemma put_all_snoc: "put_all (ps @ [(c, k, v)]) vars = put_variable c k v (put_all ps vars)"
  by (simp add: put_all_def)

lemma present_put_all: "present vars c k \<Longrightarrow> present (put_all ps vars) c k"
  by (induction ps arbitrary: vars) (auto simp: put_all_Cons present_put_variable put_all_def)

lemma present_after_put_all: "(c, k, v) \<in> set ps \<Longrightarrow> present (put_all ps vars) c k"
proof (induction ps arbitrary: vars)
  case Nil
  then show ?case by simp
next
  case (Cons p ps)
  obtain c1 k1 v1 where p: "p = (c1, k1, v1)" by (cases p)
  show ?case
  proof (cases "(c, k, v) = p")
    case True
    then have "put_all (p # ps) vars = put_all ps (put_variable c k v vars)"
      by (auto simp: put_all_Cons)
    then show ?thesis
      by (simp add: present_put_all present_put_variable_same)
  next
    case False
    with Cons.prems have "(c, k, v) \<in> set ps" by simp
    then show ?thesis by (simp add: p put_all_Cons Cons.IH)
  qed
qed

lemma put_all_absorb:
  "\<forall>p\<in>set qs. present vars (fst p) (fst (snd p)) \<Longrightarrow>
   put_variable c k v (put_all qs (put_variable c k v' vars))
     = put_variable c k v (put_all qs vars)"
proof (induction qs arbitrary: vars)
  case Nil
  then show ?case by (simp add: put_all_def put_variable_last)
next
  case (Cons q qs)
  obtain c1 k1 v1 where q: "q = (c1, k1, v1)" by (cases q)
  from Cons.prems q have pres: "present vars c1 k1"
    and rest: "\<forall>p\<in>set qs. present (put_variable c1 k1 v1 vars) (fst p) (fst (snd p))"
    by (auto simp: present_put_variable)
  show ?case
  proof (cases "(c, k) = (c1, k1)")
    case True
    then show ?thesis by (simp add: q put_all_Cons put_variable_last)
  next
    case False
    then have "put_variable c1 k1 v1 (put_variable c k v' vars)
        = put_variable c k v' (put_variable c1 k1 v1 vars)"
      using pres by (rule put_variable_commute)
    then show ?thesis
      using Cons.IH[OF rest] by (simp add: q put_all_Cons)
  qed
qed

lemma put_all_idem: "put_all ps (put_all ps vars) = put_all ps vars"
proof (induction ps rule: rev_induct)
  case Nil
  then show ?case by (simp add: put_all_def)
next
  case (snoc p ps)
  obtain c k v where p: "p = (c, k, v)" by (cases p)
  have pres: "\<forall>q\<in>set ps. present (put_all ps vars) (fst q) (fst (snd q))"
    by (auto intro: present_after_put_all)
  have "put_all (ps @ [p]) (put_all (ps @ [p]) vars)
      = put_variable c k v (put_all ps (put_variable c k v (put_all ps vars)))"
    by (simp add: p put_all_snoc)
  also have "\<dots> = put_variable c k v (put_all ps (put_all ps vars))"
    using pres by (rule put_all_absorb)
  also have "\<dots> = put_all (ps @ [p]) vars"
    by (simp add: snoc.IH p put_all_snoc)
  finally show ?case .
qed

lemma fold_state_puts:
  "fold (\<lambda>(k, v). put_variable collection k (StateV v)) st vars
     = put_all (map (\<lambda>(k, v). (collection, k, StateV v)) st) vars"
  by (induction st arbitrary: vars) (auto simp: put_all_def)

lemma put_all_append: "put_all (ps @ qs) vars = put_all qs (put_all ps vars)"
  by (simp add: put_all_def)

lemma put_all_Nil: "put_all [] vars = vars"
  by (simp add: put_all_def)

lemma fold_type_puts:
  "fold (\<lambda>(typ, st) vars.
           if mutable (name typ)
           then fold (\<lambda>(k, v). put_variable (name typ) k (StateV v)) st vars
           else vars) tss vars
   = put_all (concat (map (\<lambda>(typ, st).
                        if mutable (name typ)
                        then map (\<lambda>(k, v). (name typ, k, StateV v)) st
                        else []) tss)) vars"
proof (induction tss arbitrary: vars)
  case Nil
  then show ?case by (simp add: put_all_Nil)
next
  case (Cons ts tss)
  obtain ty st where ts: "ts = (ty, st)" by (cases ts)
  show ?case
    by (simp add: ts Cons.IH put_all_append fold_state_puts put_all_Nil)
qed

lemma update_variables_captured:
  "update_variables env m sc =
     sc\<lparr>variables := put_all (captured env (is_mutable_collection sc) m) (variables sc)\<rparr>"
proof -
  obtain gdef state where sp: "nnx_split env m = (gdef, state)"
    by (cases "nnx_split env m")
  show ?thesis
    by (simp add: update_variables_def captured_def sp Let_def fold_type_puts
        put_all_append put_all_Cons put_all_Nil)
qed

text \<open>
  Claim C7. Running \<^verbatim>\<open>update_variables\<close> twice in succession on the same module, in
  the same call context, leaves the scope that the first run left: the second run makes
  the same sequence of writes, so the collections have the same names and under every
  name of every collection the same value is stored after both runs.
\<close>

theorem update_variables_twice:
  "update_variables env m (update_variables env m sc) = update_variables env m sc \<and>
   variables (update_variables env m sc)
     = put_all (captured env (is_mutable_collection sc) m) (variables sc) \<and>
   fst ` set (variables (update_variables env m (update_variables env m sc)))
     = fst ` set (variables (update_variables env m sc)) \<and>
   lookup_variable (variables (update_variables env m (update_variables env m sc))) col name
     = lookup_variable (variables (update_variables env m sc)) col name"
proof -
  have "update_variables env m (update_variables env m sc) = update_variables env m sc"
    by (simp add: update_variables_captured put_all_idem)
  then show ?thesis
    by (simp add: update_variables_captured)
qed

end
